theory Spec2Isabelle
  imports
    Complex_Main
    "HOL-Library.Sublist"
    "HOL-Library.Multiset"
    "HOL-Library.Char_ord"
    "HOL-Library.List_Lexorder"
begin

section \<open>The incident record\<close>

text \<open>
  The \<^verbatim>\<open>Incident\<close> interface of the incidents list (IncidentsList). The interface of
  the recent-incidents table (IncidentsTable.tsx) declares a subset of these fields with
  the same types. A TypeScript \<^verbatim>\<open>number\<close> holds counts and epoch milliseconds here; it
  is modelled as \<^typ>\<open>int\<close> (doubles are exact on integers below \<open>2^53\<close>). A string is a
  list of characters, compared code unit by code unit.
\<close>

datatype priority = Low | Medium | High | Critical

datatype status = Reported | Verified | Investigating | Resolved | Closed

fun priority_str :: "priority \<Rightarrow> string" where
  "priority_str Low = ''low''"
| "priority_str Medium = ''medium''"
| "priority_str High = ''high''"
| "priority_str Critical = ''critical''"

fun status_str :: "status \<Rightarrow> string" where
  "status_str Reported = ''reported''"
| "status_str Verified = ''verified''"
| "status_str Investigating = ''investigating''"
| "status_str Resolved = ''resolved''"
| "status_str Closed = ''closed''"

record casualties =
  deaths :: int
  injuries :: int
  missing :: int

record livestockStolen =
  cattle :: int
  goats :: int
  sheep :: int
  camels :: int
  other :: int

record Incident =
  id' :: string
  creationTime' :: int
  incidentType :: string
  county :: string
  subcounty :: "string option"
  location :: string
  incidentDate :: int
  reportedDate :: int
  priority :: priority
  status :: status
  description :: string
  casualties :: casualties
  livestockStolen :: livestockStolen
  isVerified :: bool
  reporterName :: "string option"
  reporterPhone :: "string option"
  isAnonymous :: bool
  respondingAgencies :: "string list"
  actionsTaken :: "string option"
  responseTime :: "int option"

text \<open>
  \<^const>\<open>id'\<close> is the field \<^verbatim>\<open>_id\<close> and \<^const>\<open>creationTime'\<close> the field \<^verbatim>\<open>_creationTime\<close>
  (a name cannot start with an underscore here). An optional field (\<^verbatim>\<open>subcounty?\<close>) is
  an \<^typ>\<open>'a option\<close>: \<^const>\<open>None\<close> is the absent field, read as \<^verbatim>\<open>undefined\<close>.
\<close>

section \<open>Strings\<close>

text \<open>
  \<^verbatim>\<open>toLowerCase\<close> on the ASCII letters: \<^verbatim>\<open>A\<close>..\<^verbatim>\<open>Z\<close> (65..90) move to \<^verbatim>\<open>a\<close>..\<^verbatim>\<open>z\<close>, every
  other character stays. The Unicode mappings of characters outside ASCII are not
  modelled. \<^verbatim>\<open>includes\<close> (here \<open>includes_str\<close>) is the search for a contiguous occurrence.
\<close>

definition lowerChar :: "char \<Rightarrow> char" where
  "lowerChar c =
     (let n = (of_char c :: nat) in if 65 \<le> n \<and> n \<le> 90 then char_of (n + 32) else c)"

definition toLowerCase :: "string \<Rightarrow> string" where
  "toLowerCase s = map lowerChar s"

fun includes_str :: "string \<Rightarrow> string \<Rightarrow> bool" where
  "includes_str [] t = (t = [])"
| "includes_str (c # s) t = (prefix t (c # s) \<or> includes_str s t)"

text \<open>
  The spec's words for the search: a field contains the term as a case-insensitive
  substring when some contiguous piece of the field equals the term up to letter case.
\<close>

definition containsIgnoreCase :: "string \<Rightarrow> string \<Rightarrow> bool" where
  "containsIgnoreCase s t = (\<exists>u \<in> set (sublists s). toLowerCase u = toLowerCase t)"

section \<open>The filter\<close>

datatype direction = Asc | Desc

text \<open>The component state of IncidentsList that the derived list reads.\<close>

record list_state =
  sortField :: string
  sortDirection :: direction
  searchTerm :: string
  statusFilter :: string
  priorityFilter :: string
  countyFilter :: string

definition matchesSearch :: "string \<Rightarrow> Incident \<Rightarrow> bool" where
  "matchesSearch term incident =
     (term = '''' \<or>
      includes_str (toLowerCase (description incident)) (toLowerCase term) \<or>
      includes_str (toLowerCase (location incident)) (toLowerCase term) \<or>
      includes_str (toLowerCase (county incident)) (toLowerCase term) \<or>
      includes_str (toLowerCase (id' incident)) (toLowerCase term))"

definition matchesStatus :: "string \<Rightarrow> Incident \<Rightarrow> bool" where
  "matchesStatus f incident = (f = '''' \<or> status_str (status incident) = f)"

definition matchesPriority :: "string \<Rightarrow> Incident \<Rightarrow> bool" where
  "matchesPriority f incident = (f = '''' \<or> priority_str (priority incident) = f)"

definition matchesCounty :: "string \<Rightarrow> Incident \<Rightarrow> bool" where
  "matchesCounty f incident = (f = '''' \<or> county incident = f)"

definition passesFilter :: "list_state \<Rightarrow> Incident \<Rightarrow> bool" where
  "passesFilter st incident =
     (matchesSearch (searchTerm st) incident \<and> matchesStatus (statusFilter st) incident \<and>
      matchesPriority (priorityFilter st) incident \<and> matchesCounty (countyFilter st) incident)"

text \<open>
  The filter of IncidentsTable.tsx: the search reads description, location and county
  (the table shows no identifier), and there is no county filter.
\<close>

record table_state =
  tSortField :: string
  tSortDirection :: direction
  tSearchTerm :: string
  tStatusFilter :: string
  tPriorityFilter :: string

definition matchesSearchTable :: "string \<Rightarrow> Incident \<Rightarrow> bool" where
  "matchesSearchTable term incident =
     (term = '''' \<or>
      includes_str (toLowerCase (description incident)) (toLowerCase term) \<or>
      includes_str (toLowerCase (location incident)) (toLowerCase term) \<or>
      includes_str (toLowerCase (county incident)) (toLowerCase term))"

definition passesFilterTable :: "table_state \<Rightarrow> Incident \<Rightarrow> bool" where
  "passesFilterTable st incident =
     (matchesSearchTable (tSearchTerm st) incident \<and> matchesStatus (tStatusFilter st) incident \<and>
      matchesPriority (tPriorityFilter st) incident)"

section \<open>The sort\<close>

text \<open>
  The comparator reads \<^verbatim>\<open>a[sortField]\<close> with a field name chosen at run time, so the
  value read is a JavaScript value of any of the field types, or \<^verbatim>\<open>undefined\<close> for a
  name the object does not have and for an absent optional field. (A name inherited from
  \<^verbatim>\<open>Object.prototype\<close>, such as \<^verbatim>\<open>constructor\<close>, reads the same value in every record;
  like \<^verbatim>\<open>undefined\<close> it compares equal to itself, and it is not told apart here.)
\<close>

datatype jsval =
    JUndefined
  | JNumber int
  | JString string
  | JBoolean bool
  | JObject
  | JArray "string list"

definition optString :: "string option \<Rightarrow> jsval" where
  "optString v = (case v of None \<Rightarrow> JUndefined | Some s \<Rightarrow> JString s)"

definition optNumber :: "int option \<Rightarrow> jsval" where
  "optNumber v = (case v of None \<Rightarrow> JUndefined | Some n \<Rightarrow> JNumber n)"

definition getField :: "Incident \<Rightarrow> string \<Rightarrow> jsval" where
  "getField a f =
     (if f = ''_id'' then JString (id' a)
      else if f = ''_creationTime'' then JNumber (creationTime' a)
      else if f = ''incidentType'' then JString (incidentType a)
      else if f = ''county'' then JString (county a)
      else if f = ''subcounty'' then optString (subcounty a)
      else if f = ''location'' then JString (location a)
      else if f = ''incidentDate'' then JNumber (incidentDate a)
      else if f = ''reportedDate'' then JNumber (reportedDate a)
      else if f = ''priority'' then JString (priority_str (priority a))
      else if f = ''status'' then JString (status_str (status a))
      else if f = ''description'' then JString (description a)
      else if f = ''casualties'' then JObject
      else if f = ''livestockStolen'' then JObject
      else if f = ''isVerified'' then JBoolean (isVerified a)
      else if f = ''reporterName'' then optString (reporterName a)
      else if f = ''reporterPhone'' then optString (reporterPhone a)
      else if f = ''isAnonymous'' then JBoolean (isAnonymous a)
      else if f = ''respondingAgencies'' then JArray (respondingAgencies a)
      else if f = ''actionsTaken'' then optString (actionsTaken a)
      else if f = ''responseTime'' then optNumber (responseTime a)
      else JUndefined)"

text \<open>
  The names the type of \<^verbatim>\<open>sortField\<close> admits:
  \<^verbatim>\<open>keyof Incident | "totalCasualties" | "totalLivestock"\<close>.
\<close>

definition sortableFields :: "string list" where
  "sortableFields =
     [''_id'', ''_creationTime'', ''incidentType'', ''county'', ''subcounty'', ''location'',
      ''incidentDate'', ''reportedDate'', ''priority'', ''status'', ''description'',
      ''casualties'', ''livestockStolen'', ''isVerified'', ''reporterName'', ''reporterPhone'',
      ''isAnonymous'', ''respondingAgencies'', ''actionsTaken'', ''responseTime'',
      ''totalCasualties'', ''totalLivestock'']"

definition totalCasualties :: "Incident \<Rightarrow> int" where
  "totalCasualties a =
     deaths (casualties a) + injuries (casualties a) + missing (casualties a)"

definition totalLivestock :: "Incident \<Rightarrow> int" where
  "totalLivestock a =
     cattle (livestockStolen a) + goats (livestockStolen a) + sheep (livestockStolen a) +
     camels (livestockStolen a) + other (livestockStolen a)"

text \<open>The first \<^verbatim>\<open>if\<close> chain of the comparator: the value compared for one record.\<close>

definition sortValue :: "string \<Rightarrow> Incident \<Rightarrow> jsval" where
  "sortValue f a =
     (if f = ''totalCasualties'' then JNumber (totalCasualties a)
      else if f = ''totalLivestock'' then JNumber (totalLivestock a)
      else getField a f)"

text \<open>
  The relational operator \<^verbatim>\<open><\<close> on the values a field can hold. Two strings compare
  by code units. An object becomes the string \<^verbatim>\<open>[object Object]\<close> and an array its
  elements joined by commas, and they compare as strings. Otherwise both sides become
  numbers: \<^verbatim>\<open>undefined\<close> is \<^verbatim>\<open>NaN\<close>, which is less than nothing and greater than nothing,
  \<^verbatim>\<open>false\<close> is 0 and \<^verbatim>\<open>true\<close> is 1. A string against a number or a boolean would be
  parsed as a number; no field of \<^verbatim>\<open>Incident\<close> holds a string in one record and a
  number in another (\<open>sortValue_sameKind\<close> below), and that case is left \<^const>\<open>False\<close>.
\<close>

fun joinComma :: "string list \<Rightarrow> string" where
  "joinComma [] = ''''"
| "joinComma [s] = s"
| "joinComma (s # t # ts) = s @ '','' @ joinComma (t # ts)"

fun toPrimitive :: "jsval \<Rightarrow> jsval" where
  "toPrimitive JObject = JString ''[object Object]''"
| "toPrimitive (JArray xs) = JString (joinComma xs)"
| "toPrimitive v = v"

fun toNumber :: "jsval \<Rightarrow> int option" where
  "toNumber (JNumber n) = Some n"
| "toNumber (JBoolean b) = Some (if b then 1 else 0)"
| "toNumber v = None"

definition js_less :: "jsval \<Rightarrow> jsval \<Rightarrow> bool" where
  "js_less x y =
     (case (toPrimitive x, toPrimitive y) of
        (JString s, JString t) \<Rightarrow> s < t
      | (px, py) \<Rightarrow>
          (case (toNumber px, toNumber py) of
             (Some m, Some n) \<Rightarrow> m < n
           | _ \<Rightarrow> False))"

datatype error = TypeError

text \<open>
  The lower-casing step: when \<^verbatim>\<open>aValue\<close> is a string both values are lower-cased, and
  \<^verbatim>\<open>bValue.toLowerCase()\<close> throws a TypeError when \<^verbatim>\<open>bValue\<close> is not a string.
\<close>

definition lowerBoth :: "jsval \<Rightarrow> jsval \<Rightarrow> error + (jsval \<times> jsval)" where
  "lowerBoth aValue bValue =
     (case aValue of
        JString s \<Rightarrow>
          (case bValue of
             JString t \<Rightarrow> Inr (JString (toLowerCase s), JString (toLowerCase t))
           | _ \<Rightarrow> Inl TypeError)
      | _ \<Rightarrow> Inr (aValue, bValue))"

definition threeWay :: "direction \<Rightarrow> jsval \<Rightarrow> jsval \<Rightarrow> int" where
  "threeWay d aValue bValue =
     (if d = Asc then (if js_less aValue bValue then -1 else if js_less bValue aValue then 1 else 0)
      else (if js_less bValue aValue then -1 else if js_less aValue bValue then 1 else 0))"

definition compareIncidents :: "string \<Rightarrow> direction \<Rightarrow> Incident \<Rightarrow> Incident \<Rightarrow> error + int" where
  "compareIncidents f d a b =
     (case lowerBoth (sortValue f a) (sortValue f b) of
        Inl e \<Rightarrow> Inl e
      | Inr (aValue, bValue) \<Rightarrow> Inr (threeWay d aValue bValue))"

text \<open>
  The value the comparator compares for one record, after the lower-casing step, and the
  values on which \<^verbatim>\<open><\<close> is a linear order: numbers, strings and booleans.
\<close>

definition sortKey :: "string \<Rightarrow> Incident \<Rightarrow> jsval" where
  "sortKey f a = (case sortValue f a of JString s \<Rightarrow> JString (toLowerCase s) | v \<Rightarrow> v)"

fun isScalar :: "jsval \<Rightarrow> bool" where
  "isScalar (JNumber n) = True"
| "isScalar (JString s) = True"
| "isScalar (JBoolean b) = True"
| "isScalar v = False"

fun sameKind :: "jsval \<Rightarrow> jsval \<Rightarrow> bool" where
  "sameKind (JNumber m) (JNumber n) = True"
| "sameKind (JString s) (JString t) = True"
| "sameKind (JBoolean a) (JBoolean b) = True"
| "sameKind u v = False"

text \<open>The lower-cased string a record holds under a string-valued field.\<close>

definition lowerString :: "string \<Rightarrow> Incident \<Rightarrow> string" where
  "lowerString f a = (case sortValue f a of JString s \<Rightarrow> toLowerCase s | _ \<Rightarrow> '''')"

text \<open>
  \<^verbatim>\<open>Array.prototype.sort\<close> with a comparator. ECMAScript fixes the result for a
  consistent comparator: the sorted permutation that keeps the input order of elements
  the comparator calls equal (the sort is stable since ES2019). The algorithm is left to
  the engine; here it is an insertion sort that compares an element with the elements
  after it, and an exception of the comparator ends the sort. It is stable
  (\<open>sortBy_stable\<close> below), and for a comparator that is not consistent or that
  throws, it fixes one of the orders an engine may produce.
\<close>

fun insertBy :: "('a \<Rightarrow> 'a \<Rightarrow> error + int) \<Rightarrow> 'a \<Rightarrow> 'a list \<Rightarrow> error + 'a list" where
  "insertBy cmp x [] = Inr [x]"
| "insertBy cmp x (y # ys) =
     (case cmp x y of
        Inl e \<Rightarrow> Inl e
      | Inr c \<Rightarrow>
          if c \<le> 0 then Inr (x # y # ys)
          else (case insertBy cmp x ys of Inl e \<Rightarrow> Inl e | Inr zs \<Rightarrow> Inr (y # zs)))"

fun sortBy :: "('a \<Rightarrow> 'a \<Rightarrow> error + int) \<Rightarrow> 'a list \<Rightarrow> error + 'a list" where
  "sortBy cmp [] = Inr []"
| "sortBy cmp (x # xs) =
     (case sortBy cmp xs of Inl e \<Rightarrow> Inl e | Inr ys \<Rightarrow> insertBy cmp x ys)"

section \<open>The derived list\<close>

definition filteredAndSortedIncidents :: "list_state \<Rightarrow> Incident list \<Rightarrow> error + Incident list" where
  "filteredAndSortedIncidents st incidents =
     sortBy (compareIncidents (sortField st) (sortDirection st))
       (filter (passesFilter st) incidents)"

definition filteredAndSortedIncidentsTable :: "table_state \<Rightarrow> Incident list \<Rightarrow> error + Incident list" where
  "filteredAndSortedIncidentsTable st incidents =
     sortBy (compareIncidents (tSortField st) (tSortDirection st))
       (filter (passesFilterTable st) incidents)"

text \<open>
  The order the comparator asks for: \<open>inOrder d f a b\<close> says that \<open>a\<close> may stand before
  \<open>b\<close> when sorting by field \<open>f\<close> in direction \<open>d\<close>.
\<close>

definition inOrder :: "direction \<Rightarrow> string \<Rightarrow> Incident \<Rightarrow> Incident \<Rightarrow> bool" where
  "inOrder d f a b =
     (if d = Asc then \<not> js_less (sortKey f b) (sortKey f a)
      else \<not> js_less (sortKey f a) (sortKey f b))"

text \<open>
  One state has every constraint of another (and possibly more) when each filter of the
  first is empty or is also the filter of the second. The sort settings are the same.
\<close>

definition addsConstraints :: "list_state \<Rightarrow> list_state \<Rightarrow> bool" where
  "addsConstraints st st' =
     (sortField st' = sortField st \<and> sortDirection st' = sortDirection st \<and>
      (searchTerm st = '''' \<or> searchTerm st' = searchTerm st) \<and>
      (statusFilter st = '''' \<or> statusFilter st' = statusFilter st) \<and>
      (priorityFilter st = '''' \<or> priorityFilter st' = priorityFilter st) \<and>
      (countyFilter st = '''' \<or> countyFilter st' = countyFilter st))"

text \<open>The state with one constraint of \<open>st\<close> only.\<close>

definition onlySearch :: "list_state \<Rightarrow> list_state" where
  "onlySearch st = st\<lparr>statusFilter := '''', priorityFilter := '''', countyFilter := ''''\<rparr>"

definition onlyStatus :: "list_state \<Rightarrow> list_state" where
  "onlyStatus st = st\<lparr>searchTerm := '''', priorityFilter := '''', countyFilter := ''''\<rparr>"

definition onlyPriority :: "list_state \<Rightarrow> list_state" where
  "onlyPriority st = st\<lparr>searchTerm := '''', statusFilter := '''', countyFilter := ''''\<rparr>"

definition onlyCounty :: "list_state \<Rightarrow> list_state" where
  "onlyCounty st = st\<lparr>searchTerm := '''', statusFilter := '''', priorityFilter := ''''\<rparr>"

section \<open>The reporter information of the details modal\<close>

text \<open>
  The block \<^verbatim>\<open>Reporter Information\<close> of \<^verbatim>\<open>IncidentDetailsModal\<close>: either the line
  \<^verbatim>\<open>Anonymous Report\<close> or the name and the phone, each \<^verbatim>\<open>N/A\<close> when absent or empty
  (\<^verbatim>\<open>incident.reporterName || "N/A"\<close>), followed by the verification mark.
\<close>

datatype reporter_lines = AnonymousReport | NameAndPhone string string

definition orNA :: "string option \<Rightarrow> string" where
  "orNA v = (case v of None \<Rightarrow> ''N/A'' | Some s \<Rightarrow> if s = '''' then ''N/A'' else s)"

definition reporterInformation :: "Incident \<Rightarrow> reporter_lines \<times> bool" where
  "reporterInformation incident =
     (if isAnonymous incident then AnonymousReport
      else NameAndPhone (orNA (reporterName incident)) (orNA (reporterPhone incident)),
      isVerified incident)"

section \<open>The trends chart\<close>

record TrendPoint =
  date :: string
  incidents :: int
  critical :: int
  resolved :: int

definition chartHeight :: int where
  "chartHeight = 200"

definition pointMax :: "TrendPoint \<Rightarrow> int" where
  "pointMax d = max (incidents d) (max (critical d) (resolved d))"

text \<open>
  \<^verbatim>\<open>Math.max(...data.map(d => Math.max(d.incidents, d.critical, d.resolved)))\<close>. Of no
  argument \<^verbatim>\<open>Math.max\<close> is \<^verbatim>\<open>-Infinity\<close>, here \<^const>\<open>None\<close>; the component returns its
  \<^verbatim>\<open>No trend data available\<close> panel before it computes \<^verbatim>\<open>maxValue\<close> of empty data.
\<close>

fun maxValue :: "TrendPoint list \<Rightarrow> int option" where
  "maxValue [] = None"
| "maxValue (d # ds) = Some (fold max (map pointMax ds) (pointMax d))"

text \<open>
  The division of two counts. JavaScript's \<^verbatim>\<open>/\<close> by zero yields \<^verbatim>\<open>Infinity\<close> or \<^verbatim>\<open>NaN\<close>, here
  \<^const>\<open>None\<close>; otherwise the quotient, taken exactly (the rounding of doubles is left
  out).
\<close>

definition js_divide :: "int \<Rightarrow> int \<Rightarrow> real option" where
  "js_divide v m = (if m = 0 then None else Some (real_of_int v / real_of_int m))"

text \<open>
  \<^verbatim>\<open>maxValue > 0 ? (value / maxValue) * (chartHeight - 32) : 0\<close>, the height of one bar,
  and the quotient in it, the normalized magnitude.
\<close>

definition normalized :: "int \<Rightarrow> int \<Rightarrow> real option" where
  "normalized m v = (if m > 0 then js_divide v m else Some 0)"

definition barHeight :: "int \<Rightarrow> int \<Rightarrow> real option" where
  "barHeight m v =
     (if m > 0 then map_option (\<lambda>q. q * real_of_int (chartHeight - 32)) (js_divide v m)
      else Some 0)"

text \<open>Every individual value of the points: the numbers the chart draws.\<close>

definition allValues :: "TrendPoint list \<Rightarrow> int list" where
  "allValues data = concat (map (\<lambda>p. [incidents p, critical p, resolved p]) data)"

datatype chart = NoTrendData | Bars int "(real option \<times> real option \<times> real option) list"

definition TrendsChart :: "TrendPoint list \<Rightarrow> chart" where
  "TrendsChart data =
     (case maxValue data of
        None \<Rightarrow> NoTrendData
      | Some m \<Rightarrow>
          Bars m (map (\<lambda>point. (barHeight m (incidents point), barHeight m (critical point),
                                barHeight m (resolved point))) data))"

section \<open>Sample data\<close>

definition sampleIncident :: Incident where
  "sampleIncident =
     \<lparr>id' = ''k57a1'', creationTime' = 1700000000000, incidentType = ''cattle_raid'',
      county = ''Turkana'', subcounty = None, location = ''Lodwar'',
      incidentDate = 1699900000000, reportedDate = 1699950000000, priority = High,
      status = Reported, description = ''Raid at the river crossing'',
      casualties = \<lparr>deaths = 2, injuries = 1, missing = 0\<rparr>,
      livestockStolen = \<lparr>cattle = 40, goats = 10, sheep = 0, camels = 0, other = 0\<rparr>,
      isVerified = False, reporterName = Some ''A. Ekai'', reporterPhone = Some ''0700000000'',
      isAnonymous = True, respondingAgencies = [], actionsTaken = None, responseTime = Some 5\<rparr>"

definition fiveCasualties :: Incident where
  "fiveCasualties =
     sampleIncident\<lparr>id' := ''k57a2'', casualties := \<lparr>deaths = 1, injuries = 3, missing = 1\<rparr>\<rparr>"

definition inTurkana :: Incident where
  "inTurkana = sampleIncident\<lparr>id' := ''k57a3'', county := ''turkana''\<rparr>"

definition inBaringo :: Incident where
  "inBaringo = sampleIncident\<lparr>id' := ''k57a4'', county := ''Baringo''\<rparr>"

definition noResponseTime :: Incident where
  "noResponseTime = sampleIncident\<lparr>id' := ''k57a5'', responseTime := None\<rparr>"

definition withPriority :: "priority \<Rightarrow> Incident" where
  "withPriority p = sampleIncident\<lparr>priority := p\<rparr>"

text \<open>The initial state of the component, and states that differ from it in one setting.\<close>

definition initialState :: list_state where
  "initialState =
     \<lparr>sortField = ''incidentDate'', sortDirection = Desc, searchTerm = '''',
      statusFilter = '''', priorityFilter = '''', countyFilter = ''''\<rparr>"

definition sortedBy :: "string \<Rightarrow> direction \<Rightarrow> list_state" where
  "sortedBy f d = initialState\<lparr>sortField := f, sortDirection := d\<rparr>"

definition samplePoints :: "TrendPoint list" where
  "samplePoints =
     [\<lparr>date = ''2024-01-01'', incidents = 4, critical = 1, resolved = 2\<rparr>,
      \<lparr>date = ''2024-01-02'', incidents = 0, critical = 0, resolved = 0\<rparr>]"

definition narrowedToBaringo :: list_state where
  "narrowedToBaringo = initialState\<lparr>countyFilter := ''Baringo''\<rparr>"

definition fourPriorities :: "Incident list" where
  "fourPriorities =
     [withPriority Medium, withPriority Low, withPriority High, withPriority Critical]"

definition quietPoints :: "TrendPoint list" where
  "quietPoints = [\<lparr>date = ''2024-01-03'', incidents = 0, critical = 0, resolved = 0\<rparr>]"

definition resolvedOnly :: list_state where
  "resolvedOnly = initialState\<lparr>statusFilter := ''resolved''\<rparr>"

definition lowPriorityOnly :: list_state where
  "lowPriorityOnly = initialState\<lparr>priorityFilter := ''low''\<rparr>"

definition searchingLodwar :: list_state where
  "searchingLodwar = initialState\<lparr>searchTerm := ''LODWAR''\<rparr>"

definition inMarsabit :: Incident where
  "inMarsabit = sampleIncident\<lparr>id' := ''k57a6'', location := ''Marsabit'', status := Resolved,
     priority := Low\<rparr>"

section \<open>Properties of the strings\<close>

lemma includes_str_sublist: "includes_str s t \<longleftrightarrow> sublist t s"
  by (induction s) (simp_all add: sublist_Cons_right)

lemma includes_str_iff: "includes_str s t \<longleftrightarrow> (\<exists>p q. s = p @ t @ q)"
  by (simp add: includes_str_sublist sublist_def)

lemma includes_str_empty: "includes_str s ''''"
  by (simp add: includes_str_sublist)

lemma toLowerCase_append: "toLowerCase (s @ t) = toLowerCase s @ toLowerCase t"
  by (simp add: toLowerCase_def)

lemma map_eq_append3:
  assumes "map f s = p @ m @ q"
  shows "\<exists>s1 s2 s3. s = s1 @ s2 @ s3 \<and> map f s2 = m"
proof -
  let ?s2 = "take (length m) (drop (length p) s)"
  have "s = take (length p) s @ ?s2 @ drop (length m) (drop (length p) s)"
    by (metis append_take_drop_id)
  moreover have "map f ?s2 = take (length m) (drop (length p) (map f s))"
    by (simp add: take_map drop_map)
  then have "map f ?s2 = m"
    by (simp add: assms)
  ultimately show ?thesis
    by blast
qed

lemma includes_lower_iff:
  "includes_str (toLowerCase s) (toLowerCase t) \<longleftrightarrow> containsIgnoreCase s t"
proof
  assume "includes_str (toLowerCase s) (toLowerCase t)"
  then obtain p q where "map lowerChar s = p @ map lowerChar t @ q"
    unfolding includes_str_iff toLowerCase_def by (elim exE)
  from map_eq_append3 [OF this]
  obtain s1 s2 s3 where "s = s1 @ s2 @ s3" and "map lowerChar s2 = map lowerChar t"
    by (elim exE conjE)
  then have "s2 \<in> set (sublists s)" and "toLowerCase s2 = toLowerCase t"
    by (simp_all add: toLowerCase_def)
  then show "containsIgnoreCase s t"
    unfolding containsIgnoreCase_def by blast
next
  assume "containsIgnoreCase s t"
  then obtain u p q where "s = p @ u @ q" and "toLowerCase u = toLowerCase t"
    by (auto simp: containsIgnoreCase_def sublist_def)
  then show "includes_str (toLowerCase s) (toLowerCase t)"
    by (auto simp: includes_str_iff toLowerCase_append)
qed

section \<open>Properties of the sort\<close>

lemma insertBy_mset: "insertBy cmp x ys = Inr zs \<Longrightarrow> mset zs = add_mset x (mset ys)"
  by (induction ys arbitrary: zs) (auto split: sum.splits if_splits)

lemma sortBy_mset: "sortBy cmp xs = Inr ys \<Longrightarrow> mset ys = mset xs"
  by (induction xs arbitrary: ys) (auto split: sum.splits dest: insertBy_mset)

lemma sortBy_set: "sortBy cmp xs = Inr ys \<Longrightarrow> set ys = set xs"
  by (metis sortBy_mset set_mset_mset)

lemma sortBy_length: "sortBy cmp xs = Inr ys \<Longrightarrow> length ys = length xs"
  by (metis sortBy_mset size_mset)

lemma insertBy_returns:
  "(\<And>y. y \<in> set ys \<Longrightarrow> \<exists>c. cmp x y = Inr c) \<Longrightarrow> \<exists>zs. insertBy cmp x ys = Inr zs"
proof (induction ys)
  case Nil
  then show ?case by simp
next
  case (Cons y ys)
  from Cons.prems [of y] obtain c where c: "cmp x y = Inr c"
    by auto
  have "\<exists>zs. insertBy cmp x ys = Inr zs"
  proof (rule Cons.IH)
    show "\<exists>c. cmp x y' = Inr c" if "y' \<in> set ys" for y'
      using that Cons.prems [of y'] by simp
  qed
  then obtain zs where "insertBy cmp x ys = Inr zs"
    by blast
  with c show ?case
    by simp
qed

lemma sortBy_returns:
  "(\<And>x y. x \<in> set xs \<Longrightarrow> y \<in> set xs \<Longrightarrow> \<exists>c. cmp x y = Inr c) \<Longrightarrow> \<exists>ys. sortBy cmp xs = Inr ys"
proof (induction xs)
  case Nil
  then show ?case by simp
next
  case (Cons x xs)
  have "\<exists>ys. sortBy cmp xs = Inr ys"
  proof (rule Cons.IH)
    show "\<exists>c. cmp a b = Inr c" if "a \<in> set xs" "b \<in> set xs" for a b
      using that Cons.prems [of a b] by simp
  qed
  then obtain ys where ys: "sortBy cmp xs = Inr ys"
    by blast
  then have set: "set ys = set xs"
    by (rule sortBy_set)
  have "\<exists>zs. insertBy cmp x ys = Inr zs"
  proof (rule insertBy_returns)
    show "\<exists>c. cmp x y = Inr c" if "y \<in> set ys" for y
      using that set Cons.prems [of x y] by simp
  qed
  with ys show ?case
    by auto
qed

lemma insertBy_equal: "(\<And>y. y \<in> set ys \<Longrightarrow> cmp x y = Inr 0) \<Longrightarrow> insertBy cmp x ys = Inr (x # ys)"
  by (cases ys) simp_all

lemma sortBy_all_equal:
  "(\<And>x y. x \<in> set xs \<Longrightarrow> y \<in> set xs \<Longrightarrow> cmp x y = Inr 0) \<Longrightarrow> sortBy cmp xs = Inr xs"
  by (induction xs) (simp_all add: insertBy_equal)

lemma insertBy_sorted:
  assumes "insertBy cmp x ys = Inr zs" and "sorted_wrt le ys"
    and agree: "\<And>y c. y \<in> set ys \<Longrightarrow> cmp x y = Inr c \<Longrightarrow> (c \<le> 0) = le x y"
    and total: "\<And>y. y \<in> set ys \<Longrightarrow> \<not> le x y \<Longrightarrow> le y x"
    and trans: "\<And>y z. y \<in> set ys \<Longrightarrow> z \<in> set ys \<Longrightarrow> le x y \<Longrightarrow> le y z \<Longrightarrow> le x z"
  shows "sorted_wrt le zs"
  using assms
proof (induction ys arbitrary: zs)
  case Nil
  from Nil.prems(1) show ?case by auto
next
  case (Cons y ys)
  from Cons.prems(1) obtain c where c: "cmp x y = Inr c"
    by (auto split: sum.splits)
  show ?case
  proof (cases "c \<le> 0")
    case True
    with c Cons.prems(1) have zs: "zs = x # y # ys"
      by simp
    from True c Cons.prems(3) [of y c] have xy: "le x y"
      by simp
    have "le x z" if "z \<in> set ys" for z
      using that xy Cons.prems(2) Cons.prems(5) [of y z] by auto
    with zs xy Cons.prems(2) show ?thesis
      by auto
  next
    case False
    with c Cons.prems(1) obtain zs' where ins: "insertBy cmp x ys = Inr zs'" and zs: "zs = y # zs'"
      by (auto split: sum.splits)
    from False c Cons.prems(3) [of y c] have "\<not> le x y"
      by simp
    with Cons.prems(4) [of y] have yx: "le y x"
      by simp
    have "sorted_wrt le zs'"
    proof (rule Cons.IH [OF ins])
      show "sorted_wrt le ys"
        using Cons.prems(2) by simp
      show "(c' \<le> 0) = le x y'" if "y' \<in> set ys" "cmp x y' = Inr c'" for y' c'
        using that Cons.prems(3) [of y' c'] by simp
      show "le y' x" if "y' \<in> set ys" "\<not> le x y'" for y'
        using that Cons.prems(4) [of y'] by simp
      show "le x z" if "y' \<in> set ys" "z \<in> set ys" "le x y'" "le y' z" for y' z
        using that Cons.prems(5) [of y' z] by simp
    qed
    moreover have "set zs' = insert x (set ys)"
      using insertBy_mset [OF ins] by (metis set_mset_mset set_mset_add_mset_insert)
    ultimately show ?thesis
      using zs yx Cons.prems(2) by auto
  qed
qed

lemma sortBy_sorted:
  assumes "sortBy cmp xs = Inr ys"
    and agree: "\<And>x y c. x \<in> set xs \<Longrightarrow> y \<in> set xs \<Longrightarrow> cmp x y = Inr c \<Longrightarrow> (c \<le> 0) = le x y"
    and total: "\<And>x y. x \<in> set xs \<Longrightarrow> y \<in> set xs \<Longrightarrow> \<not> le x y \<Longrightarrow> le y x"
    and trans: "\<And>x y z. x \<in> set xs \<Longrightarrow> y \<in> set xs \<Longrightarrow> z \<in> set xs \<Longrightarrow> le x y \<Longrightarrow> le y z \<Longrightarrow> le x z"
  shows "sorted_wrt le ys"
  using assms
proof (induction xs arbitrary: ys)
  case Nil
  from Nil.prems(1) show ?case by simp
next
  case (Cons x xs)
  from Cons.prems(1) obtain ys' where s: "sortBy cmp xs = Inr ys'" and ins: "insertBy cmp x ys' = Inr ys"
    by (auto split: sum.splits)
  have set: "set ys' = set xs"
    using s by (rule sortBy_set)
  have sorted: "sorted_wrt le ys'"
  proof (rule Cons.IH [OF s])
    show "(c \<le> 0) = le a b" if "a \<in> set xs" "b \<in> set xs" "cmp a b = Inr c" for a b c
      using that Cons.prems(2) [of a b c] by simp
    show "le b a" if "a \<in> set xs" "b \<in> set xs" "\<not> le a b" for a b
      using that Cons.prems(3) [of a b] by simp
    show "le a c" if "a \<in> set xs" "b \<in> set xs" "c \<in> set xs" "le a b" "le b c" for a b c
      using that Cons.prems(4) [of a b c] by simp
  qed
  show ?case
  proof (rule insertBy_sorted [OF ins sorted])
    show "(c \<le> 0) = le x y" if "y \<in> set ys'" "cmp x y = Inr c" for y c
      using that set Cons.prems(2) [of x y c] by simp
    show "le y x" if "y \<in> set ys'" "\<not> le x y" for y
      using that set Cons.prems(3) [of x y] by simp
    show "le x z" if "y \<in> set ys'" "z \<in> set ys'" "le x y" "le y z" for y z
      using that set Cons.prems(4) [of x y z] by simp
  qed
qed

lemma sorted_wrt_unique:
  assumes "sorted_wrt R xs" and "sorted_wrt R ys" and "mset xs = mset ys"
    and asym: "\<And>x y. x \<in> set xs \<Longrightarrow> y \<in> set xs \<Longrightarrow> R x y \<Longrightarrow> \<not> R y x"
  shows "xs = ys"
  using assms
proof (induction xs arbitrary: ys)
  case Nil
  from Nil.prems(3) show ?case by simp
next
  case (Cons x xs)
  from Cons.prems(3) obtain y ys' where ys: "ys = y # ys'"
    by (cases ys) auto
  have sets: "set (x # xs) = set (y # ys')"
    using Cons.prems(3) ys by (metis set_mset_mset)
  have "x = y"
  proof (rule ccontr)
    assume neq: "x \<noteq> y"
    with sets have "x \<in> set ys'" and "y \<in> set xs"
      by auto
    with Cons.prems(1,2) ys have "R y x" and "R x y"
      by auto
    with Cons.prems(4) [of x y] sets show False
      by auto
  qed
  moreover from this Cons.prems(3) ys have "mset xs = mset ys'"
    by simp
  moreover have "xs = ys'"
  proof (rule Cons.IH)
    show "sorted_wrt R xs" and "sorted_wrt R ys'"
      using Cons.prems(1,2) ys by simp_all
    show "mset xs = mset ys'"
      using \<open>x = y\<close> Cons.prems(3) ys by simp
    show "\<not> R b a" if "a \<in> set xs" "b \<in> set xs" "R a b" for a b
      using that Cons.prems(4) [of a b] by simp
  qed
  ultimately show ?case
    using ys by simp
qed

text \<open>Elements that the comparator never orders strictly keep their input order.\<close>

lemma insertBy_filter_other:
  "insertBy cmp x ys = Inr zs \<Longrightarrow> \<not> Q x \<Longrightarrow> filter Q zs = filter Q ys"
  by (induction ys arbitrary: zs) (auto split: sum.splits if_splits)

lemma insertBy_filter_same:
  assumes "insertBy cmp x ys = Inr zs" and "P x"
    and "\<And>y c. y \<in> set ys \<Longrightarrow> cmp x y = Inr c \<Longrightarrow> 0 < c \<Longrightarrow> \<not> P y"
  shows "filter P zs = x # filter P ys"
  using assms
proof (induction ys arbitrary: zs)
  case Nil
  from Nil.prems(1,2) show ?case by auto
next
  case (Cons y ys)
  from Cons.prems(1) obtain c where c: "cmp x y = Inr c"
    by (auto split: sum.splits)
  show ?case
  proof (cases "c \<le> 0")
    case True
    with c Cons.prems(1,2) show ?thesis
      by auto
  next
    case False
    with c Cons.prems(1) obtain zs' where ins: "insertBy cmp x ys = Inr zs'" and zs: "zs = y # zs'"
      by (auto split: sum.splits)
    from False c Cons.prems(3) [of y c] have "\<not> P y"
      by simp
    moreover have "filter P zs' = x # filter P ys"
    proof (rule Cons.IH [OF ins Cons.prems(2)])
      show "\<not> P y'" if "y' \<in> set ys" "cmp x y' = Inr c'" "0 < c'" for y' c'
        using that Cons.prems(3) [of y' c'] by simp
    qed
    ultimately show ?thesis
      using zs by simp
  qed
qed

lemma sortBy_stable:
  assumes "sortBy cmp xs = Inr ys"
    and "\<And>x y c. x \<in> set xs \<Longrightarrow> y \<in> set xs \<Longrightarrow> cmp x y = Inr c \<Longrightarrow> 0 < c \<Longrightarrow> k x \<noteq> k y"
  shows "filter (\<lambda>y. k y = v) ys = filter (\<lambda>y. k y = v) xs"
  using assms
proof (induction xs arbitrary: ys)
  case Nil
  from Nil.prems(1) show ?case by simp
next
  case (Cons x xs)
  from Cons.prems(1) obtain ys' where s: "sortBy cmp xs = Inr ys'" and ins: "insertBy cmp x ys' = Inr ys"
    by (auto split: sum.splits)
  have set: "set ys' = set xs"
    using s by (rule sortBy_set)
  have ih: "filter (\<lambda>y. k y = v) ys' = filter (\<lambda>y. k y = v) xs"
  proof (rule Cons.IH [OF s])
    show "k a \<noteq> k b" if "a \<in> set xs" "b \<in> set xs" "cmp a b = Inr c" "0 < c" for a b c
      using that Cons.prems(2) [of a b c] by simp
  qed
  show ?case
  proof (cases "k x = v")
    case True
    have "filter (\<lambda>y. k y = v) ys = x # filter (\<lambda>y. k y = v) ys'"
    proof (rule insertBy_filter_same [OF ins])
      show "k x = v"
        by (rule True)
      show "k y \<noteq> v" if "y \<in> set ys'" "cmp x y = Inr c" "0 < c" for y c
        using that set True Cons.prems(2) [of x y c] by auto
    qed
    with ih True show ?thesis
      by simp
  next
    case False
    with insertBy_filter_other [OF ins, of "\<lambda>y. k y = v"] ih show ?thesis
      by simp
  qed
qed

section \<open>Properties of the comparator\<close>

lemma js_less_scalar:
  "js_less (JNumber m) (JNumber n) = (m < n)"
  "js_less (JString s) (JString t) = (s < t)"
  "js_less (JBoolean a) (JBoolean b) = (\<not> a \<and> b)"
  "js_less JUndefined v = False"
  "js_less v JUndefined = False"
  by (cases v; simp add: js_less_def)+

lemma js_less_asym: "js_less x y \<Longrightarrow> \<not> js_less y x"
  by (cases x; cases y) (auto simp: js_less_def)

lemma sameKind_cases:
  assumes "sameKind x y"
  obtains m n where "x = JNumber m" "y = JNumber n"
    | s t where "x = JString s" "y = JString t"
    | a b where "x = JBoolean a" "y = JBoolean b"
  using assms by (cases x; cases y) auto

lemma js_less_linear: "sameKind x y \<Longrightarrow> x = y \<or> js_less x y \<or> js_less y x"
  by (erule sameKind_cases) (auto simp: js_less_scalar)

lemma js_not_less_trans:
  "sameKind x y \<Longrightarrow> sameKind y z \<Longrightarrow> \<not> js_less y x \<Longrightarrow> \<not> js_less z y \<Longrightarrow> \<not> js_less z x"
  by (erule sameKind_cases; erule sameKind_cases) (auto simp: js_less_scalar)

lemma threeWay_le:
  "(threeWay Asc x y \<le> 0) = (\<not> js_less y x)"
  "(threeWay Desc x y \<le> 0) = (\<not> js_less x y)"
  using js_less_asym [of x y] by (auto simp: threeWay_def)

lemma sortValue_sameKind:
  "isScalar (sortValue f a) \<Longrightarrow> isScalar (sortValue f b) \<Longrightarrow> sameKind (sortValue f a) (sortValue f b)"
  by (auto simp: sortValue_def getField_def optString_def optNumber_def split: if_splits option.splits)

lemma sortKey_sameKind:
  "isScalar (sortValue f a) \<Longrightarrow> isScalar (sortValue f b) \<Longrightarrow> sameKind (sortKey f a) (sortKey f b)"
  using sortValue_sameKind [of f a b]
  by (cases "sortValue f a"; cases "sortValue f b") (auto simp: sortKey_def)

lemma compareIncidents_scalar:
  "isScalar (sortValue f a) \<Longrightarrow> isScalar (sortValue f b) \<Longrightarrow>
   compareIncidents f d a b = Inr (threeWay d (sortKey f a) (sortKey f b))"
  using sortValue_sameKind [of f a b]
  by (cases "sortValue f a"; cases "sortValue f b") (auto simp: compareIncidents_def lowerBoth_def sortKey_def)

lemma inOrder_agree:
  assumes "isScalar (sortValue f a)" and "isScalar (sortValue f b)"
    and "compareIncidents f d a b = Inr c"
  shows "(c \<le> 0) = inOrder d f a b"
proof -
  from assms have "c = threeWay d (sortKey f a) (sortKey f b)"
    by (simp add: compareIncidents_scalar)
  then show ?thesis
    by (cases d) (simp_all add: threeWay_le inOrder_def)
qed

lemma inOrder_total: "\<not> inOrder d f a b \<Longrightarrow> inOrder d f b a"
  using js_less_asym [of "sortKey f a" "sortKey f b"] js_less_asym [of "sortKey f b" "sortKey f a"]
  by (auto simp: inOrder_def split: if_splits)

lemma inOrder_trans:
  assumes "isScalar (sortValue f a)" and "isScalar (sortValue f b)" and "isScalar (sortValue f c)"
    and "inOrder d f a b" and "inOrder d f b c"
  shows "inOrder d f a c"
proof (cases d)
  case Asc
  with assms(4,5) have "\<not> js_less (sortKey f b) (sortKey f a)" and "\<not> js_less (sortKey f c) (sortKey f b)"
    by (simp_all add: inOrder_def)
  with js_not_less_trans [OF sortKey_sameKind [OF assms(1,2)] sortKey_sameKind [OF assms(2,3)]]
  show ?thesis
    using Asc by (simp add: inOrder_def)
next
  case Desc
  with assms(4,5) have "\<not> js_less (sortKey f a) (sortKey f b)" and "\<not> js_less (sortKey f b) (sortKey f c)"
    by (simp_all add: inOrder_def)
  with js_not_less_trans [OF sortKey_sameKind [OF assms(3,2)] sortKey_sameKind [OF assms(2,1)]]
  show ?thesis
    using Desc by (simp add: inOrder_def)
qed

lemma sortBy_scalar:
  assumes sc: "\<And>r. r \<in> set xs \<Longrightarrow> isScalar (sortValue f r)"
  shows "\<exists>ys. sortBy (compareIncidents f d) xs = Inr ys \<and> mset ys = mset xs \<and>
    sorted_wrt (inOrder d f) ys"
proof -
  have "\<exists>ys. sortBy (compareIncidents f d) xs = Inr ys"
  proof (rule sortBy_returns)
    show "\<exists>c. compareIncidents f d a b = Inr c" if "a \<in> set xs" "b \<in> set xs" for a b
      using that sc by (simp add: compareIncidents_scalar)
  qed
  then obtain ys where ys: "sortBy (compareIncidents f d) xs = Inr ys"
    by blast
  have "sorted_wrt (inOrder d f) ys"
  proof (rule sortBy_sorted [OF ys])
    show "(c \<le> 0) = inOrder d f a b"
      if "a \<in> set xs" "b \<in> set xs" "compareIncidents f d a b = Inr c" for a b c
      using that sc by (intro inOrder_agree) simp_all
    show "inOrder d f b a" if "\<not> inOrder d f a b" for a b
      using that by (rule inOrder_total)
    show "inOrder d f a c"
      if "a \<in> set xs" "b \<in> set xs" "c \<in> set xs" "inOrder d f a b" "inOrder d f b c" for a b c
      using sc [OF that(1)] sc [OF that(2)] sc [OF that(3)] that(4,5) by (rule inOrder_trans)
  qed
  with ys sortBy_mset [OF ys] show ?thesis
    by simp
qed

lemma sorted_wrt_distinct_keys:
  "sorted_wrt P xs \<Longrightarrow> distinct (map k xs) \<Longrightarrow> sorted_wrt (\<lambda>a b. P a b \<and> k a \<noteq> k b) xs"
  by (induction xs) auto

lemma sortBy_flip:
  assumes sc: "\<And>r. r \<in> set xs \<Longrightarrow> isScalar (sortValue f r)"
    and dist: "distinct (map (sortKey f) xs)"
  shows "\<exists>ys. sortBy (compareIncidents f Asc) xs = Inr ys \<and>
    sortBy (compareIncidents f Desc) xs = Inr (rev ys)"
proof -
  let ?R = "\<lambda>a b. js_less (sortKey f a) (sortKey f b)"
  from sortBy_scalar [of xs f Asc] sc obtain up where
    up: "sortBy (compareIncidents f Asc) xs = Inr up" "mset up = mset xs" "sorted_wrt (inOrder Asc f) up"
    by blast
  from sortBy_scalar [of xs f Desc] sc obtain down where
    down: "sortBy (compareIncidents f Desc) xs = Inr down" "mset down = mset xs"
      "sorted_wrt (inOrder Desc f) down"
    by blast
  have set_up: "set up = set xs" and set_down: "set down = set xs"
    using up(2) down(2) by (metis set_mset_mset)+
  have dist_up: "distinct (map (sortKey f) up)" and dist_down: "distinct (map (sortKey f) down)"
    using dist up(2) down(2) by (metis distinct_map mset_eq_setD mset_eq_imp_distinct_iff set_mset_mset)+
  have linear: "?R a b \<or> ?R b a" if "a \<in> set xs" "b \<in> set xs" "sortKey f a \<noteq> sortKey f b" for a b
    using js_less_linear [OF sortKey_sameKind [OF sc [OF that(1)] sc [OF that(2)]]] that(3) by simp
  have "sorted_wrt (\<lambda>a b. inOrder Asc f a b \<and> sortKey f a \<noteq> sortKey f b) up"
    using up(3) dist_up by (rule sorted_wrt_distinct_keys)
  then have s_up: "sorted_wrt ?R up"
  proof (rule sorted_wrt_mono_rel [rotated])
    show "?R a b" if "a \<in> set up" "b \<in> set up" "inOrder Asc f a b \<and> sortKey f a \<noteq> sortKey f b" for a b
      using that linear [of a b] set_up by (auto simp: inOrder_def)
  qed
  have "sorted_wrt (\<lambda>a b. inOrder Desc f a b \<and> sortKey f a \<noteq> sortKey f b) down"
    using down(3) dist_down by (rule sorted_wrt_distinct_keys)
  then have "sorted_wrt (\<lambda>a b. ?R b a) down"
  proof (rule sorted_wrt_mono_rel [rotated])
    show "?R b a" if "a \<in> set down" "b \<in> set down" "inOrder Desc f a b \<and> sortKey f a \<noteq> sortKey f b" for a b
      using that linear [of a b] set_down by (auto simp: inOrder_def)
  qed
  then have s_down: "sorted_wrt ?R (rev down)"
    by (simp add: sorted_wrt_rev)
  have "up = rev down"
  proof (rule sorted_wrt_unique [OF s_up s_down])
    show "mset up = mset (rev down)"
      using up(2) down(2) by simp
    show "\<not> ?R b a" if "?R a b" for a b
      using that by (rule js_less_asym)
  qed
  with up(1) down(1) show ?thesis
    by simp
qed

section \<open>Records with equal keys keep their input order\<close>

lemma js_less_irrefl: "\<not> js_less x x"
  using js_less_asym [of x x] by blast

lemma compare_positive_keys_differ:
  assumes "compareIncidents f d a b = Inr c" and "0 < c"
  shows "sortKey f a \<noteq> sortKey f b"
proof
  assume eq: "sortKey f a = sortKey f b"
  show False
  proof (cases "sortValue f a")
    case (JString s)
    with assms(1) obtain t where t: "sortValue f b = JString t"
      by (cases "sortValue f b") (auto simp: compareIncidents_def lowerBoth_def)
    from JString t eq have "toLowerCase s = toLowerCase t"
      by (simp add: sortKey_def)
    with JString t assms show False
      by (auto simp: compareIncidents_def lowerBoth_def threeWay_def js_less_irrefl split: if_splits)
  next
    case JUndefined
    with assms show False
      by (auto simp: compareIncidents_def lowerBoth_def threeWay_def js_less_scalar split: if_splits)
  next
    case (JNumber n)
    with eq have "sortValue f b = JNumber n"
      by (cases "sortValue f b") (auto simp: sortKey_def)
    with JNumber assms show False
      by (auto simp: compareIncidents_def lowerBoth_def threeWay_def js_less_irrefl split: if_splits)
  next
    case (JBoolean x)
    with eq have "sortValue f b = JBoolean x"
      by (cases "sortValue f b") (auto simp: sortKey_def)
    with JBoolean assms show False
      by (auto simp: compareIncidents_def lowerBoth_def threeWay_def js_less_irrefl split: if_splits)
  next
    case JObject
    with eq have "sortValue f b = JObject"
      by (cases "sortValue f b") (auto simp: sortKey_def)
    with JObject assms show False
      by (auto simp: compareIncidents_def lowerBoth_def threeWay_def js_less_irrefl split: if_splits)
  next
    case (JArray xs)
    with eq have "sortValue f b = JArray xs"
      by (cases "sortValue f b") (auto simp: sortKey_def)
    with JArray assms show False
      by (auto simp: compareIncidents_def lowerBoth_def threeWay_def js_less_irrefl split: if_splits)
  qed
qed

lemma equal_keys_keep_order:
  assumes "filteredAndSortedIncidents st R = Inr out"
  shows "filter (\<lambda>r. sortKey (sortField st) r = v) out =
    filter (\<lambda>r. sortKey (sortField st) r = v) (filter (passesFilter st) R)"
  using assms unfolding filteredAndSortedIncidents_def
  by (rule sortBy_stable) (rule compare_positive_keys_differ)

section \<open>The filter does not read the sort settings\<close>

lemma passesFilter_sort_irrelevant:
  "passesFilter (st\<lparr>sortField := f, sortDirection := d\<rparr>) = passesFilter st"
  "passesFilter (st\<lparr>sortField := f\<rparr>) = passesFilter st"
  "passesFilter (st\<lparr>sortDirection := d\<rparr>) = passesFilter st"
  by (simp_all add: passesFilter_def fun_eq_iff)

lemma passesFilterTable_sort_irrelevant:
  "passesFilterTable (t\<lparr>tSortField := f, tSortDirection := d\<rparr>) = passesFilterTable t"
  "passesFilterTable (t\<lparr>tSortField := f\<rparr>) = passesFilterTable t"
  by (simp_all add: passesFilterTable_def fun_eq_iff)

section \<open>C1: a sort field that is not a sortable key\<close>

lemma sortValue_unknown: "f \<notin> set sortableFields \<Longrightarrow> sortValue f a = JUndefined"
  by (simp add: sortableFields_def sortValue_def getField_def)

lemma compareIncidents_unknown: "f \<notin> set sortableFields \<Longrightarrow> compareIncidents f d a b = Inr 0"
  by (simp add: compareIncidents_def sortValue_unknown lowerBoth_def threeWay_def js_less_scalar)

lemma sortBy_unknown: "f \<notin> set sortableFields \<Longrightarrow> sortBy (compareIncidents f d) xs = Inr xs"
  by (rule sortBy_all_equal) (rule compareIncidents_unknown)

text \<open>
  C1 says that a sort field outside the sortable keys makes the call fail with
  \<^verbatim>\<open>InvalidSortField\<close> and yield no result. The code has no such check: sorted by the
  unknown field \<^verbatim>\<open>severity\<close>, two records come back as a result, in their input order.
\<close>

theorem unknown_sort_field_returns_list:
  "''severity'' \<notin> set sortableFields \<and>
   filteredAndSortedIncidents (sortedBy ''severity'' Asc) [inTurkana, inBaringo] =
     Inr [inTurkana, inBaringo]"
  by code_simp

text \<open>
  C1 as amended: with a sort field that is not a sortable key, no error is raised; the
  comparator reads \<^verbatim>\<open>undefined\<close> for every record, calls every pair equal, and the result
  is the list of the records that pass the filter, in their input order. This holds for
  the incidents list and for the recent-incidents table.
\<close>

theorem unknown_sort_field_keeps_order:
  assumes "f \<notin> set sortableFields"
  shows "filteredAndSortedIncidents (st\<lparr>sortField := f\<rparr>) R = Inr (filter (passesFilter st) R) \<and>
    filteredAndSortedIncidentsTable (t\<lparr>tSortField := f\<rparr>) R = Inr (filter (passesFilterTable t) R)"
  using assms
  by (simp add: filteredAndSortedIncidents_def filteredAndSortedIncidentsTable_def
      passesFilter_sort_irrelevant passesFilterTable_sort_irrelevant sortBy_unknown)

theorem unknown_sort_field_keeps_order_witness:
  "''severity'' \<notin> set sortableFields \<and>
   filteredAndSortedIncidents (initialState\<lparr>sortField := ''severity''\<rparr>) [inTurkana, inBaringo] =
     Inr (filter (passesFilter initialState) [inTurkana, inBaringo])"
proof -
  have h: "''severity'' \<notin> set sortableFields"
    by (simp add: sortableFields_def)
  from unknown_sort_field_keeps_order [OF h] h show ?thesis
    by blast
qed

section \<open>C2: the search term\<close>

text \<open>
  C2 says that a record passes a non-empty search term exactly when one of description,
  location, county and identifier contains it, so that a record with the term in its
  identifier only still passes. The search of the recent-incidents table does not read the
  identifier: the sample record holds \<^verbatim>\<open>K57\<close> in its identifier (up to case) and in no
  other field, and it does not pass there.
\<close>

theorem table_search_skips_identifier:
  "''K57'' \<noteq> '''' \<and> containsIgnoreCase (id' sampleIncident) ''K57'' \<and>
   \<not> matchesSearchTable ''K57'' sampleIncident"
  by code_simp

text \<open>
  C2 as amended: for a non-empty search term, a record passes the search of the incidents
  list exactly when description, location, county or identifier contains the term as a
  case-insensitive substring, and it passes the search of the recent-incidents table
  exactly when description, location or county does.
\<close>

theorem search_any_field:
  assumes "term \<noteq> ''''"
  shows "(matchesSearch term r \<longleftrightarrow>
      containsIgnoreCase (description r) term \<or> containsIgnoreCase (location r) term \<or>
      containsIgnoreCase (county r) term \<or> containsIgnoreCase (id' r) term) \<and>
    (matchesSearchTable term r \<longleftrightarrow>
      containsIgnoreCase (description r) term \<or> containsIgnoreCase (location r) term \<or>
      containsIgnoreCase (county r) term)"
  using assms by (simp add: matchesSearch_def matchesSearchTable_def includes_lower_iff)

text \<open>In the incidents list the sample record passes by its identifier alone.\<close>

theorem search_any_field_witness:
  "''K57'' \<noteq> '''' \<and> matchesSearch ''K57'' sampleIncident \<and>
   containsIgnoreCase (id' sampleIncident) ''K57''"
proof -
  have h: "''K57'' \<noteq> ''''"
    by simp
  have "containsIgnoreCase (id' sampleIncident) ''K57''"
    by code_simp
  with search_any_field [OF h, of sampleIncident] h show ?thesis
    by blast
qed

section \<open>C3: the output holds records of the input only\<close>

text \<open>
  C3: for every record list, filter and sort setting, the output is made of records of
  the input: every output element occurs in the input, none occurs more often than in
  the input, and the output is no longer than the input. The output is in the order of
  the sort, so the inclusion is one of multisets. It holds for the incidents list and for
  the recent-incidents table.
\<close>

theorem output_within_input:
  "(filteredAndSortedIncidents st R = Inr out \<longrightarrow>
      mset out \<subseteq># mset R \<and> set out \<subseteq> set R \<and>
      (\<forall>x. count (mset out) x \<le> count (mset R) x) \<and> length out \<le> length R) \<and>
   (filteredAndSortedIncidentsTable t R = Inr out' \<longrightarrow>
      mset out' \<subseteq># mset R \<and> set out' \<subseteq> set R \<and>
      (\<forall>x. count (mset out') x \<le> count (mset R) x) \<and> length out' \<le> length R)"
proof -
  have within: "mset ys \<subseteq># mset R \<and> set ys \<subseteq> set R \<and>
      (\<forall>x. count (mset ys) x \<le> count (mset R) x) \<and> length ys \<le> length R"
    if "sortBy cmp (filter P R) = Inr ys" for cmp P ys
  proof -
    from that have m: "mset ys = mset (filter P R)"
      by (rule sortBy_mset)
    then have sub: "mset ys \<subseteq># mset R"
      by simp
    from m have "set ys = set (filter P R)"
      by (metis set_mset_mset)
    moreover from sub have "\<forall>x. count (mset ys) x \<le> count (mset R) x"
      by (simp add: mset_subset_eq_count)
    moreover from sub have "size (mset ys) \<le> size (mset R)"
      by (rule size_mset_mono)
    ultimately show ?thesis
      using sub by auto
  qed
  show ?thesis
    unfolding filteredAndSortedIncidents_def filteredAndSortedIncidentsTable_def
    using within by blast
qed

text \<open>Narrowed to the county Baringo, two records yield the one of that county.\<close>

theorem output_within_input_witness:
  "filteredAndSortedIncidents narrowedToBaringo [inTurkana, inBaringo] = Inr [inBaringo] \<and>
   mset [inBaringo] \<subseteq># mset [inTurkana, inBaringo] \<and>
   length [inBaringo] \<le> length [inTurkana, inBaringo]"
proof -
  have h: "filteredAndSortedIncidents narrowedToBaringo [inTurkana, inBaringo] = Inr [inBaringo]"
    by code_simp
  with output_within_input [of narrowedToBaringo "[inTurkana, inBaringo]" "[inBaringo]"]
  show ?thesis
    by blast
qed

text \<open>Before the sort, the records that pass are in their input order.\<close>

lemma filter_keeps_order: "subseq (filter (passesFilter st) R) R"
  by simp

section \<open>C4: the constraints combine by conjunction\<close>

lemma weaker_constraint:
  "f = [] \<or> f' = f \<Longrightarrow> matchesSearch f' r \<Longrightarrow> matchesSearch f r"
  "f = [] \<or> f' = f \<Longrightarrow> matchesStatus f' r \<Longrightarrow> matchesStatus f r"
  "f = [] \<or> f' = f \<Longrightarrow> matchesPriority f' r \<Longrightarrow> matchesPriority f r"
  "f = [] \<or> f' = f \<Longrightarrow> matchesCounty f' r \<Longrightarrow> matchesCounty f r"
  by (auto simp: matchesSearch_def matchesStatus_def matchesPriority_def matchesCounty_def)

lemma addsConstraints_passes:
  assumes "addsConstraints st st'" and "passesFilter st' r"
  shows "passesFilter st r"
proof -
  from assms(1) have c:
    "searchTerm st = [] \<or> searchTerm st' = searchTerm st"
    "statusFilter st = [] \<or> statusFilter st' = statusFilter st"
    "priorityFilter st = [] \<or> priorityFilter st' = priorityFilter st"
    "countyFilter st = [] \<or> countyFilter st' = countyFilter st"
    by (simp_all add: addsConstraints_def)
  from assms(2) have m:
    "matchesSearch (searchTerm st') r" "matchesStatus (statusFilter st') r"
    "matchesPriority (priorityFilter st') r" "matchesCounty (countyFilter st') r"
    by (simp_all add: passesFilter_def)
  have "matchesSearch (searchTerm st) r"
    using c(1) m(1) by (rule weaker_constraint(1))
  moreover have "matchesStatus (statusFilter st) r"
    using c(2) m(2) by (rule weaker_constraint(2))
  moreover have "matchesPriority (priorityFilter st) r"
    using c(3) m(3) by (rule weaker_constraint(3))
  moreover have "matchesCounty (countyFilter st) r"
    using c(4) m(4) by (rule weaker_constraint(4))
  ultimately show ?thesis
    by (simp add: passesFilter_def)
qed

lemma filter_length_mono: "(\<And>x. P x \<Longrightarrow> Q x) \<Longrightarrow> length (filter P xs) \<le> length (filter Q xs)"
  by (induction xs) auto

lemma passesFilter_fields:
  "passesFilter st r \<longleftrightarrow>
     (searchTerm st = '''' \<or>
      containsIgnoreCase (description r) (searchTerm st) \<or>
      containsIgnoreCase (location r) (searchTerm st) \<or>
      containsIgnoreCase (county r) (searchTerm st) \<or>
      containsIgnoreCase (id' r) (searchTerm st)) \<and>
     (statusFilter st = '''' \<or> status_str (status r) = statusFilter st) \<and>
     (priorityFilter st = '''' \<or> priority_str (priority r) = priorityFilter st) \<and>
     (countyFilter st = '''' \<or> county r = countyFilter st)"
  by (simp add: passesFilter_def matchesSearch_def matchesStatus_def matchesPriority_def
      matchesCounty_def includes_lower_iff)

lemma single_constraint:
  "passesFilter (onlySearch st) r \<longleftrightarrow>
     (searchTerm st = '''' \<or>
      containsIgnoreCase (description r) (searchTerm st) \<or>
      containsIgnoreCase (location r) (searchTerm st) \<or>
      containsIgnoreCase (county r) (searchTerm st) \<or>
      containsIgnoreCase (id' r) (searchTerm st))"
  "passesFilter (onlyStatus st) r \<longleftrightarrow>
     (statusFilter st = '''' \<or> status_str (status r) = statusFilter st)"
  "passesFilter (onlyPriority st) r \<longleftrightarrow>
     (priorityFilter st = '''' \<or> priority_str (priority r) = priorityFilter st)"
  "passesFilter (onlyCounty st) r \<longleftrightarrow> (countyFilter st = '''' \<or> county r = countyFilter st)"
  by (simp_all add: passesFilter_fields onlySearch_def onlyStatus_def onlyPriority_def
      onlyCounty_def)

lemma adding_one_constraint:
  "searchTerm st = '''' \<Longrightarrow> addsConstraints st (st\<lparr>searchTerm := x\<rparr>)"
  "statusFilter st = '''' \<Longrightarrow> addsConstraints st (st\<lparr>statusFilter := x\<rparr>)"
  "priorityFilter st = '''' \<Longrightarrow> addsConstraints st (st\<lparr>priorityFilter := x\<rparr>)"
  "countyFilter st = '''' \<Longrightarrow> addsConstraints st (st\<lparr>countyFilter := x\<rparr>)"
  by (simp_all add: addsConstraints_def)

text \<open>
  C4: a record passes the combined filter exactly when it passes every constraint: the
  search term is empty or occurs, up to letter case, in description, location, county or
  identifier; the status filter is empty or is the record's status; the priority filter is
  empty or is the record's priority; the county filter is empty or is the record's county.
  Each constraint taken alone is that one test, the combined filter is their conjunction,
  and with every constraint empty every record passes. Setting one empty constraint adds a
  constraint; and when a state has every constraint of another one and more, each record it
  lets pass passes the other too, so its filtered list, and the list returned, is no
  longer.
\<close>

theorem filter_and_semantics:
  assumes "addsConstraints st st'"
  shows "(passesFilter st r \<longleftrightarrow>
      (searchTerm st = '''' \<or>
       containsIgnoreCase (description r) (searchTerm st) \<or>
       containsIgnoreCase (location r) (searchTerm st) \<or>
       containsIgnoreCase (county r) (searchTerm st) \<or>
       containsIgnoreCase (id' r) (searchTerm st)) \<and>
      (statusFilter st = '''' \<or> status_str (status r) = statusFilter st) \<and>
      (priorityFilter st = '''' \<or> priority_str (priority r) = priorityFilter st) \<and>
      (countyFilter st = '''' \<or> county r = countyFilter st)) \<and>
    (passesFilter (onlySearch st) r \<longleftrightarrow>
      (searchTerm st = '''' \<or>
       containsIgnoreCase (description r) (searchTerm st) \<or>
       containsIgnoreCase (location r) (searchTerm st) \<or>
       containsIgnoreCase (county r) (searchTerm st) \<or>
       containsIgnoreCase (id' r) (searchTerm st))) \<and>
    (passesFilter (onlyStatus st) r \<longleftrightarrow>
      (statusFilter st = '''' \<or> status_str (status r) = statusFilter st)) \<and>
    (passesFilter (onlyPriority st) r \<longleftrightarrow>
      (priorityFilter st = '''' \<or> priority_str (priority r) = priorityFilter st)) \<and>
    (passesFilter (onlyCounty st) r \<longleftrightarrow>
      (countyFilter st = '''' \<or> county r = countyFilter st)) \<and>
    (passesFilter st r \<longleftrightarrow>
      passesFilter (onlySearch st) r \<and> passesFilter (onlyStatus st) r \<and>
      passesFilter (onlyPriority st) r \<and> passesFilter (onlyCounty st) r) \<and>
    passesFilter (st\<lparr>searchTerm := '''', statusFilter := '''', priorityFilter := '''',
      countyFilter := ''''\<rparr>) r \<and>
    (searchTerm st = '''' \<longrightarrow> addsConstraints st (st\<lparr>searchTerm := x\<rparr>)) \<and>
    (statusFilter st = '''' \<longrightarrow> addsConstraints st (st\<lparr>statusFilter := x\<rparr>)) \<and>
    (priorityFilter st = '''' \<longrightarrow> addsConstraints st (st\<lparr>priorityFilter := x\<rparr>)) \<and>
    (countyFilter st = '''' \<longrightarrow> addsConstraints st (st\<lparr>countyFilter := x\<rparr>)) \<and>
    (passesFilter st' r \<longrightarrow> passesFilter st r) \<and>
    length (filter (passesFilter st') R) \<le> length (filter (passesFilter st) R) \<and>
    (filteredAndSortedIncidents st R = Inr out \<longrightarrow> filteredAndSortedIncidents st' R = Inr out' \<longrightarrow>
      mset out = mset (filter (passesFilter st) R) \<and>
      mset out' = mset (filter (passesFilter st') R) \<and> length out' \<le> length out)"
proof -
  have one: "passesFilter st r \<longleftrightarrow>
      passesFilter (onlySearch st) r \<and> passesFilter (onlyStatus st) r \<and>
      passesFilter (onlyPriority st) r \<and> passesFilter (onlyCounty st) r"
    unfolding single_constraint by (rule passesFilter_fields)
  have two: "passesFilter (st\<lparr>searchTerm := '''', statusFilter := '''', priorityFilter := '''',
      countyFilter := ''''\<rparr>) r"
    by (simp add: passesFilter_fields)
  have three: "passesFilter st' x \<Longrightarrow> passesFilter st x" for x
    using assms by (rule addsConstraints_passes)
  then have four: "length (filter (passesFilter st') R) \<le> length (filter (passesFilter st) R)"
    by (rule filter_length_mono)
  have five: "mset out = mset (filter (passesFilter st) R) \<and>
      mset out' = mset (filter (passesFilter st') R) \<and> length out' \<le> length out"
    if a: "filteredAndSortedIncidents st R = Inr out" and b: "filteredAndSortedIncidents st' R = Inr out'"
  proof -
    from a have "mset out = mset (filter (passesFilter st) R)"
      unfolding filteredAndSortedIncidents_def by (rule sortBy_mset)
    moreover from b have "mset out' = mset (filter (passesFilter st') R)"
      unfolding filteredAndSortedIncidents_def by (rule sortBy_mset)
    moreover from a b four have "length out' \<le> length out"
      by (auto simp: filteredAndSortedIncidents_def dest!: sortBy_length)
    ultimately show ?thesis
      by simp
  qed
  from three [of r] have three': "passesFilter st' r \<longrightarrow> passesFilter st r"
    by blast
  from five have five': "filteredAndSortedIncidents st R = Inr out \<longrightarrow>
      filteredAndSortedIncidents st' R = Inr out' \<longrightarrow>
      mset out = mset (filter (passesFilter st) R) \<and>
      mset out' = mset (filter (passesFilter st') R) \<and> length out' \<le> length out"
    by blast
  show ?thesis
    by (intro conjI impI passesFilter_fields single_constraint one two adding_one_constraint
        three' four five')
qed

text \<open>
  The county constraint added to the initial state: the result of two records is no
  longer, and the record of the other county passes no more. A status filter, a priority
  filter and a search term each reject a record that does not meet them and let pass one
  that does.
\<close>

theorem filter_and_semantics_witness:
  "addsConstraints initialState narrowedToBaringo \<and>
   length (filter (passesFilter narrowedToBaringo) [inTurkana, inBaringo])
     \<le> length (filter (passesFilter initialState) [inTurkana, inBaringo]) \<and>
   passesFilter initialState inTurkana \<and> \<not> passesFilter narrowedToBaringo inTurkana \<and>
   passesFilter narrowedToBaringo inBaringo \<and>
   \<not> passesFilter resolvedOnly sampleIncident \<and> passesFilter resolvedOnly inMarsabit \<and>
   \<not> passesFilter lowPriorityOnly sampleIncident \<and> passesFilter lowPriorityOnly inMarsabit \<and>
   passesFilter searchingLodwar sampleIncident \<and> \<not> passesFilter searchingLodwar inMarsabit"
proof -
  have h: "addsConstraints initialState narrowedToBaringo"
    by code_simp
  have same: "addsConstraints initialState initialState"
    "addsConstraints narrowedToBaringo narrowedToBaringo"
    "addsConstraints resolvedOnly resolvedOnly" "addsConstraints lowPriorityOnly lowPriorityOnly"
    "addsConstraints searchingLodwar searchingLodwar"
    by (simp_all add: addsConstraints_def)
  from filter_and_semantics [OF h, where R = "[inTurkana, inBaringo]" and r = inTurkana]
  have len: "length (filter (passesFilter narrowedToBaringo) [inTurkana, inBaringo])
      \<le> length (filter (passesFilter initialState) [inTurkana, inBaringo])"
    by blast
  note initial = filter_and_semantics [OF same(1), THEN conjunct1]
  note baringo = filter_and_semantics [OF same(2), THEN conjunct1]
  note resolved = filter_and_semantics [OF same(3), THEN conjunct1]
  note low = filter_and_semantics [OF same(4), THEN conjunct1]
  note lodwar = filter_and_semantics [OF same(5), THEN conjunct1]
  have county: "passesFilter initialState inTurkana" "\<not> passesFilter narrowedToBaringo inTurkana"
    "passesFilter narrowedToBaringo inBaringo"
    unfolding initial baringo
    by (simp_all add: initialState_def narrowedToBaringo_def inTurkana_def inBaringo_def
        sampleIncident_def)
  have status: "\<not> passesFilter resolvedOnly sampleIncident" "passesFilter resolvedOnly inMarsabit"
    unfolding resolved
    by (simp_all add: initialState_def resolvedOnly_def inMarsabit_def sampleIncident_def)
  have prio: "\<not> passesFilter lowPriorityOnly sampleIncident" "passesFilter lowPriorityOnly inMarsabit"
    unfolding low
    by (simp_all add: initialState_def lowPriorityOnly_def inMarsabit_def sampleIncident_def)
  have s1: "containsIgnoreCase (location sampleIncident) (searchTerm searchingLodwar)"
    unfolding includes_lower_iff [symmetric] by code_simp
  have s2: "searchTerm searchingLodwar \<noteq> []"
    "\<not> containsIgnoreCase (description inMarsabit) (searchTerm searchingLodwar)"
    "\<not> containsIgnoreCase (location inMarsabit) (searchTerm searchingLodwar)"
    "\<not> containsIgnoreCase (county inMarsabit) (searchTerm searchingLodwar)"
    "\<not> containsIgnoreCase (id' inMarsabit) (searchTerm searchingLodwar)"
    unfolding includes_lower_iff [symmetric] by code_simp+
  have s3: "statusFilter searchingLodwar = []" "priorityFilter searchingLodwar = []"
    "countyFilter searchingLodwar = []"
    by (simp_all add: searchingLodwar_def initialState_def)
  have search: "passesFilter searchingLodwar sampleIncident" "\<not> passesFilter searchingLodwar inMarsabit"
    unfolding lodwar using s1 s2 s3 by simp_all
  from h len county status prio search show ?thesis
    by simp
qed

text \<open>The table has the constraints on search term, status and priority.\<close>

lemma table_filter_and_semantics:
  "passesFilterTable t r \<longleftrightarrow>
     (tSearchTerm t = '''' \<or>
      containsIgnoreCase (description r) (tSearchTerm t) \<or>
      containsIgnoreCase (location r) (tSearchTerm t) \<or>
      containsIgnoreCase (county r) (tSearchTerm t)) \<and>
     (tStatusFilter t = '''' \<or> status_str (status r) = tStatusFilter t) \<and>
     (tPriorityFilter t = '''' \<or> priority_str (priority r) = tPriorityFilter t)"
  by (simp add: passesFilterTable_def matchesSearchTable_def matchesStatus_def
      matchesPriority_def includes_lower_iff)

section \<open>C5: the computed sort keys\<close>

lemma computed_scalar:
  "isScalar (sortValue ''totalCasualties'' r)" "isScalar (sortValue ''totalLivestock'' r)"
  "sortKey ''totalCasualties'' r = JNumber (totalCasualties r)"
  "sortKey ''totalLivestock'' r = JNumber (totalLivestock r)"
  by (simp_all add: sortValue_def sortKey_def)

lemma sorted_pipeline:
  assumes "\<And>r. r \<in> set R \<Longrightarrow> isScalar (sortValue f r)"
  shows "\<exists>out. filteredAndSortedIncidents (st\<lparr>sortField := f, sortDirection := d\<rparr>) R = Inr out \<and>
    mset out = mset (filter (passesFilter st) R) \<and> sorted_wrt (inOrder d f) out"
proof -
  have "\<exists>ys. sortBy (compareIncidents f d) (filter (passesFilter st) R) = Inr ys \<and>
      mset ys = mset (filter (passesFilter st) R) \<and> sorted_wrt (inOrder d f) ys"
    by (rule sortBy_scalar) (simp add: assms)
  then show ?thesis
    by (simp add: filteredAndSortedIncidents_def passesFilter_sort_irrelevant)
qed

text \<open>
  C5: for every record the sort key \<^verbatim>\<open>totalCasualties\<close> is deaths + injuries + missing and
  the sort key \<^verbatim>\<open>totalLivestock\<close> is cattle + goats + sheep + camels + other, and sorting
  by either key returns the records that pass the filter ordered by these sums: rising
  when the direction is ascending, falling when it is descending.
\<close>

theorem computed_sort_keys:
  "sortValue ''totalCasualties'' r =
     JNumber (deaths (casualties r) + injuries (casualties r) + missing (casualties r)) \<and>
   sortValue ''totalLivestock'' r =
     JNumber (cattle (livestockStolen r) + goats (livestockStolen r) + sheep (livestockStolen r) +
       camels (livestockStolen r) + other (livestockStolen r)) \<and>
   (\<exists>out. filteredAndSortedIncidents (st\<lparr>sortField := ''totalCasualties'', sortDirection := Asc\<rparr>) R = Inr out \<and>
      mset out = mset (filter (passesFilter st) R) \<and>
      sorted_wrt (\<lambda>a b. totalCasualties a \<le> totalCasualties b) out) \<and>
   (\<exists>out. filteredAndSortedIncidents (st\<lparr>sortField := ''totalCasualties'', sortDirection := Desc\<rparr>) R = Inr out \<and>
      mset out = mset (filter (passesFilter st) R) \<and>
      sorted_wrt (\<lambda>a b. totalCasualties b \<le> totalCasualties a) out) \<and>
   (\<exists>out. filteredAndSortedIncidents (st\<lparr>sortField := ''totalLivestock'', sortDirection := Asc\<rparr>) R = Inr out \<and>
      mset out = mset (filter (passesFilter st) R) \<and>
      sorted_wrt (\<lambda>a b. totalLivestock a \<le> totalLivestock b) out) \<and>
   (\<exists>out. filteredAndSortedIncidents (st\<lparr>sortField := ''totalLivestock'', sortDirection := Desc\<rparr>) R = Inr out \<and>
      mset out = mset (filter (passesFilter st) R) \<and>
      sorted_wrt (\<lambda>a b. totalLivestock b \<le> totalLivestock a) out)"
proof -
  have c: "inOrder Asc ''totalCasualties'' = (\<lambda>a b. totalCasualties a \<le> totalCasualties b)"
    "inOrder Desc ''totalCasualties'' = (\<lambda>a b. totalCasualties b \<le> totalCasualties a)"
    "inOrder Asc ''totalLivestock'' = (\<lambda>a b. totalLivestock a \<le> totalLivestock b)"
    "inOrder Desc ''totalLivestock'' = (\<lambda>a b. totalLivestock b \<le> totalLivestock a)"
    by (auto simp: inOrder_def computed_scalar js_less_scalar fun_eq_iff)
  have "sortValue ''totalCasualties'' r =
     JNumber (deaths (casualties r) + injuries (casualties r) + missing (casualties r))"
    by (simp add: sortValue_def totalCasualties_def)
  moreover have "sortValue ''totalLivestock'' r =
     JNumber (cattle (livestockStolen r) + goats (livestockStolen r) + sheep (livestockStolen r) +
       camels (livestockStolen r) + other (livestockStolen r))"
    by (simp add: sortValue_def totalLivestock_def)
  moreover note
    sorted_pipeline [where R = R and f = "''totalCasualties''" and st = st and d = Asc, unfolded c, OF computed_scalar(1)]
    sorted_pipeline [where R = R and f = "''totalCasualties''" and st = st and d = Desc, unfolded c, OF computed_scalar(1)]
    sorted_pipeline [where R = R and f = "''totalLivestock''" and st = st and d = Asc, unfolded c, OF computed_scalar(2)]
    sorted_pipeline [where R = R and f = "''totalLivestock''" and st = st and d = Desc, unfolded c, OF computed_scalar(2)]
  ultimately show ?thesis
    by (intro conjI)
qed

text \<open>
  The record with deaths 2, injuries 1, missing 0 has the key 3 and comes before the
  record with the key 5 in ascending order.
\<close>

theorem computed_sort_keys_witness:
  "sortValue ''totalCasualties'' sampleIncident = JNumber 3 \<and>
   sortValue ''totalCasualties'' fiveCasualties = JNumber 5 \<and>
   filteredAndSortedIncidents (sortedBy ''totalCasualties'' Asc) [fiveCasualties, sampleIncident] =
     Inr [sampleIncident, fiveCasualties]"
proof -
  have "deaths (casualties sampleIncident) + injuries (casualties sampleIncident) +
      missing (casualties sampleIncident) = 3"
    and "deaths (casualties fiveCasualties) + injuries (casualties fiveCasualties) +
      missing (casualties fiveCasualties) = 5"
    by (simp_all add: sampleIncident_def fiveCasualties_def)
  moreover have "filteredAndSortedIncidents (sortedBy ''totalCasualties'' Asc)
      [fiveCasualties, sampleIncident] = Inr [sampleIncident, fiveCasualties]"
    by code_simp
  ultimately show ?thesis
    using computed_sort_keys [of sampleIncident] computed_sort_keys [of fiveCasualties]
    by simp
qed

section \<open>C6: ascending against descending\<close>

text \<open>
  C6 says that whenever the sort keys of the records under a field are pairwise distinct,
  the ascending and the descending outputs are reverses of each other. An optional field
  may be absent: under \<^verbatim>\<open>responseTime\<close> one record has the key 5 and the other the key
  \<^verbatim>\<open>undefined\<close>, the comparator calls them equal in both directions, and both outputs are
  the input order.
\<close>

theorem absent_value_does_not_flip:
  "distinct (map (sortKey ''responseTime'') [sampleIncident, noResponseTime]) \<and>
   filteredAndSortedIncidents (sortedBy ''responseTime'' Asc) [sampleIncident, noResponseTime] =
     Inr [sampleIncident, noResponseTime] \<and>
   filteredAndSortedIncidents (sortedBy ''responseTime'' Desc) [sampleIncident, noResponseTime] =
     Inr [sampleIncident, noResponseTime] \<and>
   [sampleIncident, noResponseTime] \<noteq> rev [sampleIncident, noResponseTime]"
  by code_simp

text \<open>
  C6 as amended: when every record holds a number, a string or a boolean under the sort
  field (no absent optional value), and the compared keys (strings lower-cased) are
  pairwise distinct, the ascending and the descending output, for the same records and
  filter, are exact reverses of each other.
\<close>

theorem direction_flip:
  assumes "\<forall>r \<in> set R. isScalar (sortValue f r)" and "distinct (map (sortKey f) R)"
  shows "\<exists>out. filteredAndSortedIncidents (st\<lparr>sortField := f, sortDirection := Asc\<rparr>) R = Inr out \<and>
    filteredAndSortedIncidents (st\<lparr>sortField := f, sortDirection := Desc\<rparr>) R = Inr (rev out)"
proof -
  have "\<exists>ys. sortBy (compareIncidents f Asc) (filter (passesFilter st) R) = Inr ys \<and>
    sortBy (compareIncidents f Desc) (filter (passesFilter st) R) = Inr (rev ys)"
  proof (rule sortBy_flip)
    show "isScalar (sortValue f r)" if "r \<in> set (filter (passesFilter st) R)" for r
      using that assms(1) by simp
    show "distinct (map (sortKey f) (filter (passesFilter st) R))"
      using assms(2) by (rule distinct_map_filter)
  qed
  then show ?thesis
    by (simp add: filteredAndSortedIncidents_def passesFilter_sort_irrelevant)
qed

text \<open>Two records of distinct counties, sorted by county.\<close>

theorem direction_flip_witness:
  "(\<exists>out. filteredAndSortedIncidents (initialState\<lparr>sortField := ''county'', sortDirection := Asc\<rparr>)
      [inTurkana, inBaringo] = Inr out \<and>
    filteredAndSortedIncidents (initialState\<lparr>sortField := ''county'', sortDirection := Desc\<rparr>)
      [inTurkana, inBaringo] = Inr (rev out)) \<and>
   distinct (map (sortKey ''county'') [inTurkana, inBaringo])"
proof -
  have h1: "\<forall>r \<in> set [inTurkana, inBaringo]. isScalar (sortValue ''county'' r)"
    by (simp add: sortValue_def getField_def)
  have h2: "distinct (map (sortKey ''county'') [inTurkana, inBaringo])"
    by code_simp
  from direction_flip [OF h1 h2] h2 show ?thesis
    by blast
qed

lemma direction_flip_example:
  "filteredAndSortedIncidents (sortedBy ''county'' Asc) [inTurkana, inBaringo] = Inr [inBaringo, inTurkana]"
  "filteredAndSortedIncidents (sortedBy ''county'' Desc) [inTurkana, inBaringo] = Inr [inTurkana, inBaringo]"
  by code_simp+

section \<open>C7: strings compare case-insensitively\<close>

lemma string_inOrder:
  assumes "sortValue f a = JString s" and "sortValue f b = JString t"
  shows "inOrder Asc f a b = (lowerString f a \<le> lowerString f b)"
    and "inOrder Desc f a b = (lowerString f b \<le> lowerString f a)"
  using assms by (auto simp: inOrder_def sortKey_def lowerString_def js_less_scalar)

lemma string_compare:
  assumes "sortValue f a = JString s" and "sortValue f b = JString t"
  shows "compareIncidents f Asc a b =
      Inr (if lowerString f a < lowerString f b then -1
           else if lowerString f b < lowerString f a then 1 else 0)"
    and "compareIncidents f Desc a b =
      Inr (if lowerString f b < lowerString f a then -1
           else if lowerString f a < lowerString f b then 1 else 0)"
  using assms
  by (simp_all add: compareIncidents_def lowerBoth_def threeWay_def lowerString_def js_less_scalar)

lemma required_string_fields:
  "sortValue ''_id'' r = JString (id' r)"
  "sortValue ''incidentType'' r = JString (incidentType r)"
  "sortValue ''county'' r = JString (county r)"
  "sortValue ''location'' r = JString (location r)"
  "sortValue ''priority'' r = JString (priority_str (priority r))"
  "sortValue ''status'' r = JString (status_str (status r))"
  "sortValue ''description'' r = JString (description r)"
  by (simp_all add: sortValue_def getField_def)

lemma string_sorted_pipeline:
  assumes str: "\<And>r. r \<in> set R \<Longrightarrow> \<exists>s. sortValue f r = JString s"
  shows "\<exists>out. filteredAndSortedIncidents (st\<lparr>sortField := f, sortDirection := Asc\<rparr>) R = Inr out \<and>
      mset out = mset (filter (passesFilter st) R) \<and>
      sorted_wrt (\<lambda>a b. lowerString f a \<le> lowerString f b) out"
    and "\<exists>out. filteredAndSortedIncidents (st\<lparr>sortField := f, sortDirection := Desc\<rparr>) R = Inr out \<and>
      mset out = mset (filter (passesFilter st) R) \<and>
      sorted_wrt (\<lambda>a b. lowerString f b \<le> lowerString f a) out"
proof -
  have sc: "isScalar (sortValue f r)" if "r \<in> set R" for r
    using str [OF that] by auto
  have within: "set out \<subseteq> set R" if "mset out = mset (filter (passesFilter st) R)" for out
  proof -
    from that have "set out = set (filter (passesFilter st) R)"
      by (metis set_mset_mset)
    then show ?thesis
      by auto
  qed
  from sorted_pipeline [where R = R and f = f and st = st and d = Asc] sc
  obtain up where up: "filteredAndSortedIncidents (st\<lparr>sortField := f, sortDirection := Asc\<rparr>) R = Inr up"
      "mset up = mset (filter (passesFilter st) R)" "sorted_wrt (inOrder Asc f) up"
    by blast
  have "sorted_wrt (\<lambda>a b. lowerString f a \<le> lowerString f b) up"
  proof (rule sorted_wrt_mono_rel [OF _ up(3)])
    fix a b
    assume "a \<in> set up" and "b \<in> set up" and o: "inOrder Asc f a b"
    with within [OF up(2)] have "a \<in> set R" and "b \<in> set R"
      by auto
    with str obtain s t where "sortValue f a = JString s" and "sortValue f b = JString t"
      by blast
    with o show "lowerString f a \<le> lowerString f b"
      by (simp add: string_inOrder)
  qed
  with up show "\<exists>out. filteredAndSortedIncidents (st\<lparr>sortField := f, sortDirection := Asc\<rparr>) R = Inr out \<and>
      mset out = mset (filter (passesFilter st) R) \<and>
      sorted_wrt (\<lambda>a b. lowerString f a \<le> lowerString f b) out"
    by blast
  from sorted_pipeline [where R = R and f = f and st = st and d = Desc] sc
  obtain down where down: "filteredAndSortedIncidents (st\<lparr>sortField := f, sortDirection := Desc\<rparr>) R = Inr down"
      "mset down = mset (filter (passesFilter st) R)" "sorted_wrt (inOrder Desc f) down"
    by blast
  have "sorted_wrt (\<lambda>a b. lowerString f b \<le> lowerString f a) down"
  proof (rule sorted_wrt_mono_rel [OF _ down(3)])
    fix a b
    assume "a \<in> set down" and "b \<in> set down" and o: "inOrder Desc f a b"
    with within [OF down(2)] have "a \<in> set R" and "b \<in> set R"
      by auto
    with str obtain s t where "sortValue f a = JString s" and "sortValue f b = JString t"
      by blast
    with o show "lowerString f b \<le> lowerString f a"
      by (simp add: string_inOrder)
  qed
  with down show "\<exists>out. filteredAndSortedIncidents (st\<lparr>sortField := f, sortDirection := Desc\<rparr>) R = Inr out \<and>
      mset out = mset (filter (passesFilter st) R) \<and>
      sorted_wrt (\<lambda>a b. lowerString f b \<le> lowerString f a) out"
    by blast
qed

text \<open>
  C7: for a string-valued sort field, the comparator compares the lower-cased values of
  the two records, in both directions, and the output is ordered by the lower-cased
  values: rising for ascending, falling for descending.
\<close>

theorem case_insensitive_order:
  assumes "\<forall>r \<in> set R. \<exists>s. sortValue f r = JString s"
  shows "(\<forall>a \<in> set R. \<forall>b \<in> set R.
      compareIncidents f Asc a b =
        Inr (if lowerString f a < lowerString f b then -1
             else if lowerString f b < lowerString f a then 1 else 0) \<and>
      compareIncidents f Desc a b =
        Inr (if lowerString f b < lowerString f a then -1
             else if lowerString f a < lowerString f b then 1 else 0)) \<and>
    (\<exists>out. filteredAndSortedIncidents (st\<lparr>sortField := f, sortDirection := Asc\<rparr>) R = Inr out \<and>
      mset out = mset (filter (passesFilter st) R) \<and>
      sorted_wrt (\<lambda>a b. lowerString f a \<le> lowerString f b) out) \<and>
    (\<exists>out. filteredAndSortedIncidents (st\<lparr>sortField := f, sortDirection := Desc\<rparr>) R = Inr out \<and>
      mset out = mset (filter (passesFilter st) R) \<and>
      sorted_wrt (\<lambda>a b. lowerString f b \<le> lowerString f a) out)"
proof (intro conjI ballI)
  fix a b
  assume "a \<in> set R" and "b \<in> set R"
  with assms obtain s t where st: "sortValue f a = JString s" "sortValue f b = JString t"
    by blast
  from st show "compareIncidents f Asc a b =
        Inr (if lowerString f a < lowerString f b then -1
             else if lowerString f b < lowerString f a then 1 else 0)"
    by (rule string_compare(1))
  from st show "compareIncidents f Desc a b =
        Inr (if lowerString f b < lowerString f a then -1
             else if lowerString f a < lowerString f b then 1 else 0)"
    by (rule string_compare(2))
next
  show "\<exists>out. filteredAndSortedIncidents (st\<lparr>sortField := f, sortDirection := Asc\<rparr>) R = Inr out \<and>
      mset out = mset (filter (passesFilter st) R) \<and>
      sorted_wrt (\<lambda>a b. lowerString f a \<le> lowerString f b) out"
    using assms by (intro string_sorted_pipeline(1)) simp
  show "\<exists>out. filteredAndSortedIncidents (st\<lparr>sortField := f, sortDirection := Desc\<rparr>) R = Inr out \<and>
      mset out = mset (filter (passesFilter st) R) \<and>
      sorted_wrt (\<lambda>a b. lowerString f b \<le> lowerString f a) out"
    using assms by (intro string_sorted_pipeline(2)) simp
qed

text \<open>
  The counties \<^verbatim>\<open>turkana\<close> and \<^verbatim>\<open>Baringo\<close>: \<^verbatim>\<open>baringo\<close> is less than \<^verbatim>\<open>turkana\<close>, so
  the comparator puts the record of Baringo first (\<open>county_example\<close> is the sorted list).
\<close>

theorem case_insensitive_order_witness:
  "lowerString ''county'' inBaringo = ''baringo'' \<and> lowerString ''county'' inTurkana = ''turkana'' \<and>
   ''baringo'' < ''turkana'' \<and> compareIncidents ''county'' Asc inTurkana inBaringo = Inr 1"
proof -
  have h: "\<forall>r \<in> set [inTurkana, inBaringo]. \<exists>s. sortValue ''county'' r = JString s"
    by (simp add: sortValue_def getField_def)
  have l: "lowerString ''county'' inBaringo = ''baringo''" "lowerString ''county'' inTurkana = ''turkana''"
    by code_simp+
  from case_insensitive_order [OF h, of initialState]
  have "compareIncidents ''county'' Asc inTurkana inBaringo =
        Inr (if lowerString ''county'' inTurkana < lowerString ''county'' inBaringo then -1
             else if lowerString ''county'' inBaringo < lowerString ''county'' inTurkana then 1 else 0)"
    by simp
  with l show ?thesis
    by simp
qed

lemma county_example:
  "filteredAndSortedIncidents (sortedBy ''county'' Asc) [inTurkana, inBaringo] = Inr [inBaringo, inTurkana]"
  by code_simp

section \<open>C10: priority and status sort as strings\<close>

lemma lower_enum_words:
  "toLowerCase ''low'' = ''low''" "toLowerCase ''medium'' = ''medium''"
  "toLowerCase ''high'' = ''high''" "toLowerCase ''critical'' = ''critical''"
  "toLowerCase ''reported'' = ''reported''" "toLowerCase ''verified'' = ''verified''"
  "toLowerCase ''investigating'' = ''investigating''" "toLowerCase ''resolved'' = ''resolved''"
  "toLowerCase ''closed'' = ''closed''"
  by code_simp+

lemma enum_strings_lower:
  "toLowerCase (priority_str p) = priority_str p" "toLowerCase (status_str s) = status_str s"
proof -
  show "toLowerCase (priority_str p) = priority_str p"
    by (cases p) (simp_all add: lower_enum_words)
  show "toLowerCase (status_str s) = status_str s"
    by (cases s) (simp_all add: lower_enum_words)
qed

lemma enum_lowerString:
  "lowerString ''priority'' r = priority_str (priority r)"
  "lowerString ''status'' r = status_str (status r)"
  by (simp_all add: lowerString_def required_string_fields enum_strings_lower)

lemma priority_order:
  "priority_str Critical < priority_str High" "priority_str High < priority_str Low"
  "priority_str Low < priority_str Medium"
  by simp_all

text \<open>
  C10: sorting by priority, and by status, orders the records by the lexicographic order
  of the value strings, not by severity or workflow rank: \<^verbatim>\<open>critical\<close> < \<^verbatim>\<open>high\<close> <
  \<^verbatim>\<open>low\<close> < \<^verbatim>\<open>medium\<close>, and in every list sorted ascending by priority each record of
  priority critical stands before each record of priority low.
\<close>

theorem enum_sort_is_lexicographic:
  "(\<exists>out. filteredAndSortedIncidents (st\<lparr>sortField := ''priority'', sortDirection := Asc\<rparr>) R = Inr out \<and>
      mset out = mset (filter (passesFilter st) R) \<and>
      sorted_wrt (\<lambda>a b. priority_str (priority a) \<le> priority_str (priority b)) out \<and>
      (\<forall>i j. i < length out \<and> j < length out \<and>
         priority (out ! i) = Critical \<and> priority (out ! j) = Low \<longrightarrow> i < j)) \<and>
   (\<exists>out. filteredAndSortedIncidents (st\<lparr>sortField := ''status'', sortDirection := Asc\<rparr>) R = Inr out \<and>
      mset out = mset (filter (passesFilter st) R) \<and>
      sorted_wrt (\<lambda>a b. status_str (status a) \<le> status_str (status b)) out) \<and>
   priority_str Critical < priority_str High \<and> priority_str High < priority_str Low \<and>
   priority_str Low < priority_str Medium"
proof -
  from string_sorted_pipeline(1) [where R = R and f = "''priority''" and st = st]
  obtain out where out:
    "filteredAndSortedIncidents (st\<lparr>sortField := ''priority'', sortDirection := Asc\<rparr>) R = Inr out"
    "mset out = mset (filter (passesFilter st) R)"
    "sorted_wrt (\<lambda>a b. priority_str (priority a) \<le> priority_str (priority b)) out"
    unfolding enum_lowerString by (auto simp: required_string_fields)
  have "i < j"
    if "i < length out" "j < length out" "priority (out ! i) = Critical" "priority (out ! j) = Low"
    for i j
  proof (rule ccontr)
    assume "\<not> i < j"
    moreover from that(3,4) have "i \<noteq> j"
      by auto
    ultimately have "j < i"
      by simp
    from sorted_wrt_nth_less [OF out(3) this that(1)] that(3,4) show False
      by simp
  qed
  with out have first: "\<exists>out.
      filteredAndSortedIncidents (st\<lparr>sortField := ''priority'', sortDirection := Asc\<rparr>) R = Inr out \<and>
      mset out = mset (filter (passesFilter st) R) \<and>
      sorted_wrt (\<lambda>a b. priority_str (priority a) \<le> priority_str (priority b)) out \<and>
      (\<forall>i j. i < length out \<and> j < length out \<and>
         priority (out ! i) = Critical \<and> priority (out ! j) = Low \<longrightarrow> i < j)"
    by blast
  from string_sorted_pipeline(1) [where R = R and f = "''status''" and st = st]
  have second: "\<exists>out.
      filteredAndSortedIncidents (st\<lparr>sortField := ''status'', sortDirection := Asc\<rparr>) R = Inr out \<and>
      mset out = mset (filter (passesFilter st) R) \<and>
      sorted_wrt (\<lambda>a b. status_str (status a) \<le> status_str (status b)) out"
    unfolding enum_lowerString by (auto simp: required_string_fields)
  from first second priority_order show ?thesis
    by (intro conjI)
qed

text \<open>One record of each priority, sorted ascending: low comes before medium.\<close>

theorem enum_sort_is_lexicographic_witness:
  "filteredAndSortedIncidents (sortedBy ''priority'' Asc) fourPriorities =
     Inr [withPriority Critical, withPriority High, withPriority Low, withPriority Medium] \<and>
   priority_str Critical < priority_str High \<and> priority_str High < priority_str Low \<and>
   priority_str Low < priority_str Medium"
proof -
  have "filteredAndSortedIncidents (sortedBy ''priority'' Asc) fourPriorities =
     Inr [withPriority Critical, withPriority High, withPriority Low, withPriority Medium]"
    by code_simp
  with enum_sort_is_lexicographic [of initialState fourPriorities] show ?thesis
    by blast
qed


section \<open>C9: an anonymous report shows no reporter\<close>

text \<open>
  C9: two records with \<^verbatim>\<open>isAnonymous\<close> set that are identical except in reporter name
  and reporter phone show the same reporter information.
\<close>

theorem anonymous_hides_reporter:
  assumes "isAnonymous a" and "isAnonymous b"
    and "a\<lparr>reporterName := None, reporterPhone := None\<rparr> = b\<lparr>reporterName := None, reporterPhone := None\<rparr>"
  shows "reporterInformation a = reporterInformation b"
proof -
  have hidden: "reporterInformation r = reporterInformation (r\<lparr>reporterName := None, reporterPhone := None\<rparr>)"
    if "isAnonymous r" for r
    using that by (simp add: reporterInformation_def)
  from hidden [OF assms(1)] hidden [OF assms(2)] assms(3) show ?thesis
    by simp
qed

text \<open>The sample record, with a name and a phone, against a copy with other values.\<close>

theorem anonymous_hides_reporter_witness:
  "isAnonymous sampleIncident \<and> reporterName sampleIncident = Some ''A. Ekai'' \<and>
   reporterName (sampleIncident\<lparr>reporterName := None, reporterPhone := Some ''0711''\<rparr>) = None \<and>
   reporterInformation sampleIncident =
     reporterInformation (sampleIncident\<lparr>reporterName := None, reporterPhone := Some ''0711''\<rparr>)"
proof -
  have h: "isAnonymous sampleIncident"
    "isAnonymous (sampleIncident\<lparr>reporterName := None, reporterPhone := Some ''0711''\<rparr>)"
    by (simp_all add: sampleIncident_def)
  have e: "sampleIncident\<lparr>reporterName := None, reporterPhone := None\<rparr> =
      sampleIncident\<lparr>reporterName := None, reporterPhone := Some ''0711''\<rparr>
        \<lparr>reporterName := None, reporterPhone := None\<rparr>"
    by simp
  from anonymous_hides_reporter [OF h e] h show ?thesis
    by (simp add: sampleIncident_def)
qed

lemma named_reporter_shown:
  "\<not> isAnonymous a \<Longrightarrow>
   reporterInformation a = (NameAndPhone (orNA (reporterName a)) (orNA (reporterPhone a)), isVerified a)"
  by (simp add: reporterInformation_def)

section \<open>C8: the scale of the trends chart\<close>

lemma never_divides_by_zero: "normalized m v \<noteq> None \<and> barHeight m v \<noteq> None"
  by (simp add: normalized_def barHeight_def js_divide_def)

lemma maxValue_Max: "data \<noteq> [] \<Longrightarrow> maxValue data = Some (Max (pointMax ` set data))"
  by (cases data) (simp_all add: Max.set_eq_fold [symmetric])

lemma set_allValues:
  "set (allValues data) = (\<Union>p \<in> set data. {incidents p, critical p, resolved p})"
  by (auto simp: allValues_def)

lemma Max_allValues:
  assumes "data \<noteq> []"
  shows "Max (pointMax ` set data) = Max (set (allValues data))"
proof (rule sym, rule Max_eqI)
  let ?m = "Max (pointMax ` set data)"
  show "finite (set (allValues data))"
    by simp
  show "v \<le> ?m" if "v \<in> set (allValues data)" for v
  proof -
    from that obtain p where p: "p \<in> set data" and "v \<in> {incidents p, critical p, resolved p}"
      by (auto simp: set_allValues)
    then have "v \<le> pointMax p"
      by (auto simp: pointMax_def)
    also from p have "pointMax p \<le> ?m"
      by simp
    finally show ?thesis .
  qed
  from assms have "?m \<in> pointMax ` set data"
    by (intro Max_in) simp_all
  then obtain p where "p \<in> set data" and "?m = pointMax p"
    by auto
  then show "?m \<in> set (allValues data)"
    by (auto simp: set_allValues pointMax_def max_def)
qed

lemma scaled_in_range:
  assumes "0 \<le> v" and "v \<le> m"
  shows "\<exists>q h. normalized m v = Some q \<and> 0 \<le> q \<and> q \<le> 1 \<and>
    barHeight m v = Some h \<and> 0 \<le> h \<and> h \<le> real_of_int (chartHeight - 32)"
proof (cases "m > 0")
  case True
  let ?q = "real_of_int v / real_of_int m"
  from True assms have q: "0 \<le> ?q" "?q \<le> 1"
    by simp_all
  from True assms have "0 \<le> ?q * 168" and "?q * 168 \<le> 168"
    by (simp_all add: pos_divide_le_eq)
  with True q show ?thesis
    by (simp add: normalized_def barHeight_def js_divide_def chartHeight_def)
next
  case False
  then show ?thesis
    by (simp add: normalized_def barHeight_def chartHeight_def)
qed

text \<open>
  C8: for a non-empty sequence of trend points with non-negative counts, \<^verbatim>\<open>maxValue\<close> is
  the maximum of all the incidents, critical and resolved values; every normalized
  magnitude lies between 0 and 1 (and every bar between 0 and the drawing height); when
  all values are 0, \<^verbatim>\<open>maxValue\<close> is 0 and every magnitude is 0; and no division by zero
  takes place, for any input.
\<close>

theorem scale_bounds:
  assumes "data \<noteq> []"
    and "\<forall>p \<in> set data. 0 \<le> incidents p \<and> 0 \<le> critical p \<and> 0 \<le> resolved p"
  shows "\<exists>m. maxValue data = Some m \<and> m = Max (set (allValues data)) \<and>
    (\<exists>bars. TrendsChart data = Bars m bars) \<and>
    (\<forall>v \<in> set (allValues data). \<exists>q h.
       normalized m v = Some q \<and> 0 \<le> q \<and> q \<le> 1 \<and>
       barHeight m v = Some h \<and> 0 \<le> h \<and> h \<le> real_of_int (chartHeight - 32)) \<and>
    ((\<forall>v \<in> set (allValues data). v = 0) \<longrightarrow>
       m = 0 \<and> (\<forall>v \<in> set (allValues data). normalized m v = Some 0 \<and> barHeight m v = Some 0)) \<and>
    (\<forall>m' v'. normalized m' v' \<noteq> None \<and> barHeight m' v' \<noteq> None)"
proof -
  let ?m = "Max (set (allValues data))"
  from assms(1) have mv: "maxValue data = Some ?m"
    by (simp add: maxValue_Max Max_allValues)
  then have chart: "\<exists>bars. TrendsChart data = Bars ?m bars"
    by (simp add: TrendsChart_def)
  from assms(1) have nonempty: "set (allValues data) \<noteq> {}"
    by (cases data) (simp_all add: allValues_def)
  have nonneg: "0 \<le> v" if "v \<in> set (allValues data)" for v
    using that assms(2) by (auto simp: set_allValues)
  have below: "v \<le> ?m" if "v \<in> set (allValues data)" for v
    using that by simp
  have range: "\<forall>v \<in> set (allValues data). \<exists>q h.
       normalized ?m v = Some q \<and> 0 \<le> q \<and> q \<le> 1 \<and>
       barHeight ?m v = Some h \<and> 0 \<le> h \<and> h \<le> real_of_int (chartHeight - 32)"
    using nonneg below by (intro ballI scaled_in_range)
  have zero: "?m = 0 \<and> (\<forall>v \<in> set (allValues data). normalized ?m v = Some 0 \<and> barHeight ?m v = Some 0)"
    if z: "\<forall>v \<in> set (allValues data). v = 0"
  proof -
    have "?m \<in> set (allValues data)"
      using nonempty by (intro Max_in) simp_all
    with z have "?m = 0"
      by blast
    then show ?thesis
      by (simp add: normalized_def barHeight_def)
  qed
  from mv chart range zero never_divides_by_zero show ?thesis
    by blast
qed

text \<open>Points with the maximum 4, and points that are all zero.\<close>

theorem scale_bounds_witness:
  "maxValue samplePoints = Some 4 \<and> normalized 4 1 = Some (1 / 4) \<and> barHeight 4 1 = Some 42 \<and>
   maxValue quietPoints = Some 0 \<and> normalized 0 0 = Some 0 \<and> barHeight 0 0 = Some 0"
proof -
  have h1: "samplePoints \<noteq> []" "quietPoints \<noteq> []"
    by (simp_all add: samplePoints_def quietPoints_def)
  have h2: "\<forall>p \<in> set samplePoints. 0 \<le> incidents p \<and> 0 \<le> critical p \<and> 0 \<le> resolved p"
    "\<forall>p \<in> set quietPoints. 0 \<le> incidents p \<and> 0 \<le> critical p \<and> 0 \<le> resolved p"
    by (simp_all add: samplePoints_def quietPoints_def)
  have m: "Max (set (allValues samplePoints)) = 4" "Max (set (allValues quietPoints)) = 0"
    by (simp_all add: allValues_def samplePoints_def quietPoints_def)
  have n: "normalized 4 1 = Some (1 / 4)" "barHeight 4 1 = Some 42"
    "normalized 0 0 = Some 0" "barHeight 0 0 = Some 0"
    by (simp_all add: normalized_def barHeight_def js_divide_def chartHeight_def)
  from scale_bounds [OF h1(1) h2(1)] scale_bounds [OF h1(2) h2(2)] m n show ?thesis
    by auto
qed

lemma chart_example:
  "TrendsChart samplePoints = Bars 4 [(Some 168, Some 42, Some 84), (Some 0, Some 0, Some 0)]"
  "TrendsChart [] = NoTrendData"
  by (simp_all add: TrendsChart_def samplePoints_def pointMax_def barHeight_def js_divide_def
      chartHeight_def)

section \<open>The recent-incidents table sorts the same way\<close>

text \<open>
  The comparator of IncidentsTable.tsx is the one of the incidents list, so its output is
  ordered in the same way, and ascending and descending are reverses of each other under
  the same conditions.
\<close>

lemma table_sorted_pipeline:
  assumes "\<And>r. r \<in> set R \<Longrightarrow> isScalar (sortValue f r)"
  shows "\<exists>out. filteredAndSortedIncidentsTable (t\<lparr>tSortField := f, tSortDirection := d\<rparr>) R = Inr out \<and>
    mset out = mset (filter (passesFilterTable t) R) \<and> sorted_wrt (inOrder d f) out"
proof -
  have "\<exists>ys. sortBy (compareIncidents f d) (filter (passesFilterTable t) R) = Inr ys \<and>
      mset ys = mset (filter (passesFilterTable t) R) \<and> sorted_wrt (inOrder d f) ys"
    by (rule sortBy_scalar) (simp add: assms)
  then show ?thesis
    by (simp add: filteredAndSortedIncidentsTable_def passesFilterTable_sort_irrelevant)
qed

lemma table_direction_flip:
  assumes "\<And>r. r \<in> set R \<Longrightarrow> isScalar (sortValue f r)" and "distinct (map (sortKey f) R)"
  shows "\<exists>out. filteredAndSortedIncidentsTable (t\<lparr>tSortField := f, tSortDirection := Asc\<rparr>) R = Inr out \<and>
    filteredAndSortedIncidentsTable (t\<lparr>tSortField := f, tSortDirection := Desc\<rparr>) R = Inr (rev out)"
proof -
  have "\<exists>ys. sortBy (compareIncidents f Asc) (filter (passesFilterTable t) R) = Inr ys \<and>
    sortBy (compareIncidents f Desc) (filter (passesFilterTable t) R) = Inr (rev ys)"
  proof (rule sortBy_flip)
    show "isScalar (sortValue f r)" if "r \<in> set (filter (passesFilterTable t) R)" for r
      using that assms(1) by simp
    show "distinct (map (sortKey f) (filter (passesFilterTable t) R))"
      using assms(2) by (rule distinct_map_filter)
  qed
  then show ?thesis
    by (simp add: filteredAndSortedIncidentsTable_def passesFilterTable_sort_irrelevant)
qed

end
